theory Spec2Isabelle
  imports Main "HOL-Library.Word"
begin

section \<open>The UCI adapter of cairo-board (src/uci-adapter.c)\<close>

text \<open>
  The adapter keeps its session in file-level globals and talks to the engine, the clock
  and the board widget through calls. The embedding threads one record through every
  function: the globals are its fields, and every call to a collaborator appends one
  entry to the field \<open>effects\<close>, in program order. Calls to the logging macro
  \<open>debug\<close> are left out. The caller's thread and the reader thread share the globals
  without a lock; the model runs each function as one step. The one place where a
  function waits for the other thread is the polling loop of \<open>wait_for_engine\<close>: the
  loop is modelled on what each of its turns observes, and the callers take the outcome
  of the wait as an argument.

  Character buffers are modelled by the C string they hold (the bytes before the first
  NUL). A store that would run past the declared size of a buffer is the fault
  \<open>BufferOverrun\<close>: C gives such a store no meaning.
\<close>

subsection \<open>Data\<close>

text \<open>
  Modelled from the spec: the enumeration \<open>UCI_MODE\<close> is declared in uci-adapter.h,
  which is not part of the sources at hand. The spec gives it three values (EngineWhite,
  EngineBlack, Analysis); the enumerators are named as the switch statements of
  uci-adapter.c name them.
\<close>

datatype UCI_MODE = ENGINE_WHITE | ENGINE_BLACK | ENGINE_ANALYSIS

text \<open>One entry per call that leaves the adapter.\<close>

datatype effect =
    WriteToUci string  \<comment> \<open>\<open>write(uci_in, message, strlen(message))\<close>\<close>
  | Stderr string  \<comment> \<open>\<open>fprintf(stderr, ...)\<close>\<close>
  | Stdout string  \<comment> \<open>\<open>printf(...)\<close>\<close>
  | StartGame string string int int int bool  \<comment> \<open>\<open>start_game(w, b, seconds, increment, relation, should_lock)\<close>\<close>
  | StartOneClock int  \<comment> \<open>\<open>start_one_clock(main_clock, color)\<close>\<close>
  | StartOneStopOtherClock int bool  \<comment> \<open>\<open>start_one_stop_other_clock(main_clock, color, lock_threads)\<close>\<close>
  | SetLastMove string  \<comment> \<open>\<open>set_last_move(move)\<close>\<close>
  | GotUciMove  \<comment> \<open>\<open>g_signal_emit_by_name(board, "got-uci-move")\<close>\<close>
  | SetAnalysisScore string
  | SetAnalysisBestLine string
  | SetAnalysisNodesPerSecond string

datatype fault = BufferOverrun

text \<open>
  The globals of uci-adapter.c, and the two globals of the chess backend that it reads
  (\<open>ics_mode\<close>) or writes (\<open>promo_type\<close>). \<open>ply_num\<close> is an \<open>unsigned int\<close>;
  \<open>to_play\<close> is an \<open>int\<close> that only ever receives 0 or 1.
\<close>

record session =
  engine_name :: string
  uci_ok :: bool
  uci_ready :: bool
  pondering :: bool
  analysing :: bool
  ply_num :: "32 word"
  to_play :: int
  all_moves :: string
  uci_mode :: UCI_MODE
  promo_type :: int
  ics_mode :: bool
  effects :: "effect list"

definition emit :: "effect \<Rightarrow> session \<Rightarrow> session" where
  "emit e s = s\<lparr>effects := effects s @ [e]\<rparr>"

text \<open>The commands written to the engine, in order.\<close>

fun uci_writes :: "effect list \<Rightarrow> string list" where
  "uci_writes [] = []"
| "uci_writes (WriteToUci m # es) = m # uci_writes es"
| "uci_writes (e # es) = uci_writes es"

text \<open>The calls made to the clock, in order.\<close>

fun is_clock_call :: "effect \<Rightarrow> bool" where
  "is_clock_call (StartOneClock c) = True"
| "is_clock_call (StartOneStopOtherClock c l) = True"
| "is_clock_call e = False"

subsection \<open>printf conversions\<close>

definition digit_char :: "int \<Rightarrow> char" where
  "digit_char d = char_of (48 + d)"

text \<open>The decimal digits of a number that is not negative.\<close>

function show_digits :: "int \<Rightarrow> string" where
  "show_digits n =
     (if n < 10 then [digit_char n] else show_digits (n div 10) @ [digit_char (n mod 10)])"
  by pat_completeness auto
termination
  by (relation "measure nat") auto

declare show_digits.simps [simp del]

text \<open>\<open>%d\<close> and \<open>%ld\<close>: a minus sign for a negative value, then the decimal digits.\<close>

definition fmt_d :: "int \<Rightarrow> string" where
  "fmt_d i = (if i < 0 then CHR ''-'' # show_digits (- i) else show_digits i)"

text \<open>
  \<open>%.2f\<close> applied to \<open>scoreInt / 100.0\<close>. The argument is the double nearest to
  \<open>n / 100\<close> for a 32-bit \<open>n\<close>; it lies within \<open>2^-28\<close> of that quotient, so the
  correctly rounded two-digit output that printf produces is the decimal expansion of
  \<open>n / 100\<close> itself: sign, whole part, point, two digits. Zero prints as \<open>0.00\<close>
  (the integer 0 has no sign to carry into the double).
\<close>

definition fmt_2f_hundredths :: "int \<Rightarrow> string" where
  "fmt_2f_hundredths n =
     (if n < 0 then ''-'' else '''') @ show_digits (\<bar>n\<bar> div 100) @ ''.'' @
     [digit_char (\<bar>n\<bar> mod 100 div 10), digit_char (\<bar>n\<bar> mod 10)]"

text \<open>\<open>snprintf(dest, size, ...)\<close> keeps at most \<open>size - 1\<close> characters.\<close>

definition snprintf :: "nat \<Rightarrow> string \<Rightarrow> string" where
  "snprintf n text = take (n - 1) text"

subsection \<open>Writing to the engine and the readiness rendezvous\<close>

text \<open>
  \<open>write_to_uci\<close>: the message goes to the engine's input; a failed \<open>write\<close> is
  reported by \<open>perror\<close> and otherwise ignored, so the session continues the same way in
  both cases. The entry records the attempt.
\<close>

definition write_to_uci :: "string \<Rightarrow> session \<Rightarrow> session" where
  "write_to_uci message s = emit (WriteToUci message) s"

text \<open>
  \<open>wait_for_engine\<close> clears \<open>uci_ready\<close>, writes \<open>isready\<close> and then polls:
  \<^verbatim>\<open>while(!uci_ready) { usleep(1000); gettimeofday(&now, NULL); timersub(&now, &start, &diff);
    if (diff.tv_sec > 3) { fprintf(stderr, ...); break; } }\<close>
  The flag is set by the reader thread only, and the time comes from the system clock, so
  a run of the loop is given by what its turns observe: \<open>obs k\<close> is the value of
  \<open>uci_ready\<close> that the loop test of turn \<open>k\<close> reads, and the \<open>diff.tv_sec\<close> (whole
  seconds since the start) that the same turn computes after its sleep. \<open>wait_loop\<close>
  returns how the loop ended and in which turn; \<open>None\<close> is a loop that never ends.
\<close>

datatype rendezvous = ReadyOk | TimedOut

partial_function (option) wait_loop ::
  "(nat \<Rightarrow> bool \<times> int) \<Rightarrow> nat \<Rightarrow> (rendezvous \<times> nat) option" where
  "wait_loop obs k =
     (if fst (obs k) then Some (ReadyOk, k)
      else if snd (obs k) > 3 then Some (TimedOut, k)
      else wait_loop obs (Suc k))"

text \<open>
  What \<open>wait_for_engine\<close> has done to the session when it returns, given how the loop
  ended: the flag is as the last loop test read it, and a loop ended by the clock has
  written the warning.
\<close>

definition wait_for_engine :: "rendezvous \<Rightarrow> session \<Rightarrow> session" where
  "wait_for_engine outcome s =
     (let s1 = s\<lparr>uci_ready := False\<rparr>;
          s2 = write_to_uci ''isready\<newline>'' s1
      in case outcome of
           ReadyOk \<Rightarrow> s2\<lparr>uci_ready := True\<rparr>
         | TimedOut \<Rightarrow> emit (Stderr ''Ooops, UCI Engine crashed?!\<newline>'') s2)"

text \<open>The whole function on a given run; \<open>None\<close> if it never returns.\<close>

definition wait_for_engine_polling :: "(nat \<Rightarrow> bool \<times> int) \<Rightarrow> session \<Rightarrow> session option" where
  "wait_for_engine_polling obs s =
     (case wait_loop obs 0 of
        None \<Rightarrow> None
      | Some (outcome, k) \<Rightarrow> Some (wait_for_engine outcome s))"

subsection \<open>Starting a game\<close>

text \<open>
  \<open>memset(all_moves, 4 * 8192, sizeof(char))\<close> stores the byte \<open>(unsigned char) 32768 = 0\<close>
  into the first \<open>sizeof(char) = 1\<close> bytes; \<open>memcpy(all_moves, "position startpos moves", 24)\<close>
  then copies the 23 characters and the terminating NUL. The C string held by
  \<open>all_moves\<close> afterwards is the marker.

  \<open>wtime\<close> and \<open>btime\<close> are what the clock answers to
  \<open>get_remaining_time(main_clock, 0)\<close> and \<open>get_remaining_time(main_clock, 1)\<close>;
  the calls are made only where the model uses the values.
\<close>

definition start_new_uci_game ::
  "int \<Rightarrow> UCI_MODE \<Rightarrow> rendezvous \<Rightarrow> rendezvous \<Rightarrow> int \<Rightarrow> int \<Rightarrow> session \<Rightarrow> session" where
  "start_new_uci_game time mode r1 r2 wtime btime s =
     (let s1 = s\<lparr>uci_mode := mode\<rparr>;
          s2 = (if pondering s1 \<or> analysing s1 then write_to_uci ''stop\<newline>'' s1 else s1);
          s3 = wait_for_engine r1 s2;
          s4 = s3\<lparr>all_moves := ''position startpos moves'', ply_num := 1, to_play := 0,
                  pondering := False\<rparr>;
          s5 = write_to_uci ''ucinewgame\<newline>'' s4;
          s6 = wait_for_engine r2 s5
      in case uci_mode s6 of
           ENGINE_WHITE \<Rightarrow>
             (let s7 = emit (StartGame ''You'' (engine_name s6) time 0 (- 1) False) s6;
                  go = ''position startpos\<newline>go wtime '' @ fmt_d wtime @
                       '' btime '' @ fmt_d btime @ ''\<newline>''
              in write_to_uci go s7)
         | ENGINE_BLACK \<Rightarrow> emit (StartGame ''You'' (engine_name s6) time 0 1 False) s6
         | ENGINE_ANALYSIS \<Rightarrow>
             (let s7 = write_to_uci ''position startpos\<newline>go infinite\<newline>'' s6
              in s7\<lparr>analysing := True\<rparr>))"

subsection \<open>Appending a move\<close>

text \<open>
  \<open>append_move\<close> stores a blank at offset \<open>strlen(all_moves)\<close> and copies the move with
  its NUL behind it; the last byte written has offset
  \<open>strlen(all_moves) + 1 + strlen(new_move)\<close>, which must lie inside \<open>char all_moves[4 * 8192]\<close>.
\<close>

definition append_move :: "string \<Rightarrow> bool \<Rightarrow> session \<Rightarrow> fault + session" where
  "append_move new_move lock_threads s =
     (let newMoveLen = length new_move;
          movesLength = length (all_moves s)
      in if movesLength + 1 + newMoveLen \<ge> 4 * 8192 then Inl BufferOverrun
         else
           (let s1 = s\<lparr>all_moves := all_moves s @ CHR '' '' # new_move\<rparr>;
                s2 = s1\<lparr>to_play := (if to_play s1 \<noteq> 0 then 0 else 1)\<rparr>;
                s3 = (if \<not> ics_mode s2 then
                        (if ply_num s2 = 1 then emit (StartOneClock (to_play s2)) s2
                         else if ply_num s2 > 1 then
                           emit (StartOneStopOtherClock (to_play s2) lock_threads) s2
                         else s2)
                      else s2)
            in Inr (s3\<lparr>ply_num := ply_num s3 + 1\<rparr>)))"


subsection \<open>A user move\<close>

text \<open>
  \<open>sprintf(moves, "%s\n", all_moves)\<close> fills \<open>char moves[8192]\<close> with the history, a
  newline and a NUL.
\<close>

definition user_move_to_uci ::
  "string \<Rightarrow> rendezvous \<Rightarrow> int \<Rightarrow> int \<Rightarrow> session \<Rightarrow> fault + session" where
  "user_move_to_uci move r wtime btime s =
     (case append_move move False s of
        Inl f \<Rightarrow> Inl f
      | Inr s1 \<Rightarrow>
          if length (all_moves s1) + 2 > 8192 then Inl BufferOverrun
          else
            (let moves = all_moves s1 @ ''\<newline>'';
                 s2 = (if pondering s1 \<or> uci_mode s1 = ENGINE_ANALYSIS
                       then write_to_uci ''stop\<newline>'' s1 else s1);
                 s3 = wait_for_engine r s2;
                 s4 = write_to_uci moves s3
             in if uci_mode s4 = ENGINE_ANALYSIS
                then Inr (write_to_uci ''go infinite\<newline>'' (s4\<lparr>analysing := True\<rparr>))
                else Inr (write_to_uci
                            (''go wtime '' @ fmt_d wtime @ '' btime '' @ fmt_d btime @ ''\<newline>'')
                            s4)))"

subsection \<open>The patterns of \<open>init_regex\<close>\<close>

text \<open>
  \<open>regexec\<close> reports the leftmost place of the text where the compiled pattern matches
  and, there, the longest match. \<open>leftmost m text\<close> tries the anchored matcher \<open>m\<close> at
  every suffix of the text, from the left; each matcher below returns the text of the
  parenthesised groups, which is what \<open>extract_match\<close> copies out of \<open>pmatch\<close>.
  The patterns were compiled without \<open>REG_NEWLINE\<close>, so \<open>.\<close> matches every character.
\<close>

fun leftmost :: "(string \<Rightarrow> 'a option) \<Rightarrow> string \<Rightarrow> 'a option" where
  "leftmost m [] = m []"
| "leftmost m (c # cs) = (case m (c # cs) of Some g \<Rightarrow> Some g | None \<Rightarrow> leftmost m cs)"

definition after_literal :: "string \<Rightarrow> string \<Rightarrow> string option" where
  "after_literal lit t = (if take (length lit) t = lit then Some (drop (length lit) t) else None)"

text \<open>
  \<open>(.*) sep (.*)\<close> at the end of a pattern: both groups are as long as they can be, the
  first one first, so the text is cut at the last place where \<open>sep\<close> stands.
\<close>

fun split_at_last :: "string \<Rightarrow> string \<Rightarrow> (string \<times> string) option" where
  "split_at_last sep [] = None"
| "split_at_last sep (c # cs) =
     (case split_at_last sep cs of
        Some (g1, g2) \<Rightarrow> Some (c # g1, g2)
      | None \<Rightarrow> (case after_literal sep (c # cs) of Some g2 \<Rightarrow> Some ([], g2) | None \<Rightarrow> None))"

definition is_digit :: "char \<Rightarrow> bool" where
  "is_digit c = (c \<in> set ''0123456789'')"

text \<open>\<open>[0-9]+\<close> and \<open>-?[0-9]+\<close>, anchored.\<close>

definition unsigned_number :: "string \<Rightarrow> string option" where
  "unsigned_number t = (let ds = takeWhile is_digit t in if ds = [] then None else Some ds)"

definition signed_number :: "string \<Rightarrow> string option" where
  "signed_number t =
     (case t of
        [] \<Rightarrow> None
      | c # r \<Rightarrow>
          if c = CHR ''-'' then
            (case unsigned_number r of Some ds \<Rightarrow> Some (c # ds) | None \<Rightarrow> None)
          else unsigned_number t)"

text \<open>\<open>"option name (.*) type (.*)"\<close>\<close>

definition option_matcher :: "string \<Rightarrow> (string \<times> string) option" where
  "option_matcher text =
     leftmost (\<lambda>t. case after_literal ''option name '' t of
                      None \<Rightarrow> None | Some r \<Rightarrow> split_at_last '' type '' r) text"

text \<open>\<open>"bestmove (.*) ponder (.*)"\<close>\<close>

definition best_move_ponder_matcher :: "string \<Rightarrow> (string \<times> string) option" where
  "best_move_ponder_matcher text =
     leftmost (\<lambda>t. case after_literal ''bestmove '' t of
                      None \<Rightarrow> None | Some r \<Rightarrow> split_at_last '' ponder '' r) text"

text \<open>\<open>"bestmove (.*)"\<close>\<close>

definition best_move_matcher :: "string \<Rightarrow> string option" where
  "best_move_matcher text = leftmost (after_literal ''bestmove '') text"

text \<open>\<open>"score cp (-?[0-9]+)"\<close>\<close>

definition info_score_cp_matcher :: "string \<Rightarrow> string option" where
  "info_score_cp_matcher text =
     leftmost (\<lambda>t. case after_literal ''score cp '' t of
                      None \<Rightarrow> None | Some r \<Rightarrow> signed_number r) text"

text \<open>\<open>"score mate (-?[0-9]+)"\<close>\<close>

definition info_score_mate_matcher :: "string \<Rightarrow> string option" where
  "info_score_mate_matcher text =
     leftmost (\<lambda>t. case after_literal ''score mate '' t of
                      None \<Rightarrow> None | Some r \<Rightarrow> signed_number r) text"

text \<open>\<open>"nps ([0-9]+)"\<close>\<close>

definition info_nps_matcher :: "string \<Rightarrow> string option" where
  "info_nps_matcher text =
     leftmost (\<lambda>t. case after_literal ''nps '' t of
                      None \<Rightarrow> None | Some r \<Rightarrow> unsigned_number r) text"

text \<open>\<open>" pv ([a-h1-8 ]+)"\<close>\<close>

definition info_best_line_matcher :: "string \<Rightarrow> string option" where
  "info_best_line_matcher text =
     leftmost (\<lambda>t. case after_literal '' pv '' t of
                      None \<Rightarrow> None
                    | Some r \<Rightarrow>
                        (let g = takeWhile (\<lambda>c. c \<in> set ''abcdefgh12345678 '') r
                         in if g = [] then None else Some g)) text"

text \<open>
  \<open>extract_match(src, aMatch, dest)\<close> copies the group and puts a NUL behind it:
  \<open>len + 1\<close> bytes into a destination declared with \<open>dest_size\<close> bytes.
\<close>

definition extract_match :: "nat \<Rightarrow> string \<Rightarrow> fault + string" where
  "extract_match dest_size g = (if length g < dest_size then Inr g else Inl BufferOverrun)"

subsection \<open>Numbers\<close>

text \<open>
  \<open>strtol(text, NULL, 10)\<close>: white space is skipped, a sign is read, then digits up to
  the first character that is none; the result is held to the range of \<open>long\<close>
  (64 bits on the platforms the program is built for). \<open>(int)\<close> keeps the low 32 bits.
\<close>

definition is_space :: "char \<Rightarrow> bool" where
  "is_space c = (c \<in> set [CHR '' '', CHR 0x09, CHR 0x0A, CHR 0x0B, CHR 0x0C, CHR 0x0D])"

definition digits_value :: "string \<Rightarrow> int" where
  "digits_value ds = foldl (\<lambda>a d. 10 * a + (of_char d - 48)) 0 ds"

definition strtol :: "string \<Rightarrow> int" where
  "strtol text =
     (let t1 = dropWhile is_space text in
      case t1 of
        [] \<Rightarrow> 0
      | c # r \<Rightarrow>
          if c = CHR ''-'' then max (- (2 ^ 63)) (- digits_value (takeWhile is_digit r))
          else if c = CHR ''+'' then min (2 ^ 63 - 1) (digits_value (takeWhile is_digit r))
          else min (2 ^ 63 - 1) (digits_value (takeWhile is_digit t1)))"

definition to_int :: "int \<Rightarrow> 32 word" where
  "to_int l = word_of_int l"

text \<open>Division of C: the quotient is truncated towards zero.\<close>

definition c_div :: "int \<Rightarrow> int \<Rightarrow> int" where
  "c_div a b = (if (a < 0) = (b < 0) then \<bar>a\<bar> div \<bar>b\<bar> else - (\<bar>a\<bar> div \<bar>b\<bar>))"


subsection \<open>Engine lines\<close>

definition parse_option :: "string \<Rightarrow> session \<Rightarrow> fault + session" where
  "parse_option optionText s =
     (case option_matcher optionText of
        Some (g1, g2) \<Rightarrow>
          (case extract_match 256 g1 of
             Inl f \<Rightarrow> Inl f
           | Inr optName \<Rightarrow>
               (case extract_match 256 g2 of Inl f \<Rightarrow> Inl f | Inr optType \<Rightarrow> Inr s))
      | None \<Rightarrow> Inr s)"

text \<open>\<open>(char) (bestMove[4] - 32)\<close>\<close>

definition minus_32 :: "char \<Rightarrow> char" where
  "minus_32 c = char_of (of_char c - (32 :: int))"

text \<open>
  \<open>parse_move\<close> declares \<open>char bestMove[6]\<close> without initialising it and fills it only
  when the pattern matches. When it does not match, the function goes on with the array
  as it found it. \<open>bestMove0\<close> is the C string the array holds on entry, whatever it is;
  \<open>char_to_type\<close> is the piece-kind mapping of the chess backend.
\<close>

definition parse_move :: "(char \<Rightarrow> int) \<Rightarrow> string \<Rightarrow> string \<Rightarrow> session \<Rightarrow> fault + session" where
  "parse_move char_to_type bestMove0 moveText s =
     (if pondering s then Inr (s\<lparr>pondering := False\<rparr>)
      else if uci_mode s = ENGINE_ANALYSIS then Inr (s\<lparr>pondering := False\<rparr>)
      else
        (case (case best_move_matcher moveText of
                 Some g \<Rightarrow> extract_match 6 g
               | None \<Rightarrow> Inr bestMove0) of
           Inl f \<Rightarrow> Inl f
         | Inr bestMove \<Rightarrow>
             (let bestMoveLen = length bestMove;
                  s1 = (if bestMoveLen > 4
                        then s\<lparr>promo_type := char_to_type (minus_32 (bestMove ! 4))\<rparr>
                        else s)
              in case append_move bestMove True s1 of
                   Inl f \<Rightarrow> Inl f
                 | Inr s2 \<Rightarrow> Inr (emit GotUciMove (emit (SetLastMove bestMove) s2)))))"

text \<open>
  \<open>parse_move_with_ponder\<close> has two such arrays, \<open>bestMove\<close> and \<open>ponderMove\<close>;
  \<open>sprintf(moves, "%s %s\n", all_moves, ponderMove)\<close> fills \<open>char moves[8192]\<close>.
\<close>

definition parse_move_with_ponder ::
  "(char \<Rightarrow> int) \<Rightarrow> string \<Rightarrow> string \<Rightarrow> string \<Rightarrow> session \<Rightarrow> fault + session" where
  "parse_move_with_ponder char_to_type bestMove0 ponderMove0 moveText s =
     (if pondering s then Inr (s\<lparr>pondering := False\<rparr>)
      else if uci_mode s = ENGINE_ANALYSIS then Inr (s\<lparr>pondering := False\<rparr>)
      else
        (case (case best_move_ponder_matcher moveText of
                 Some (g1, g2) \<Rightarrow>
                   (case extract_match 6 g1 of
                      Inl f \<Rightarrow> Inl f
                    | Inr b \<Rightarrow> (case extract_match 6 g2 of Inl f \<Rightarrow> Inl f | Inr p \<Rightarrow> Inr (b, p)))
               | None \<Rightarrow> Inr (bestMove0, ponderMove0)) of
           Inl f \<Rightarrow> Inl f
         | Inr (bestMove, ponderMove) \<Rightarrow>
             (let bestMoveLen = length bestMove;
                  s1 = (if bestMoveLen > 4
                        then s\<lparr>promo_type := char_to_type (minus_32 (bestMove ! 4))\<rparr>
                        else s)
              in case append_move bestMove True s1 of
                   Inl f \<Rightarrow> Inl f
                 | Inr s2 \<Rightarrow>
                     (let s3 = emit GotUciMove (emit (SetLastMove bestMove) s2)
                      in if length (all_moves s3) + 1 + length ponderMove + 2 > 8192
                         then Inl BufferOverrun
                         else
                           (let moves = all_moves s3 @ '' '' @ ponderMove @ ''\<newline>'';
                                s4 = write_to_uci moves s3;
                                s5 = write_to_uci ''go ponder\<newline>'' s4
                            in Inr (s5\<lparr>pondering := True\<rparr>))))))"

text \<open>
  \<open>parse_info\<close>: the score (centipawns, or else mate), the principal variation and the
  node rate, each only if its pattern matches. \<open>scoreValue\<close> and \<open>nps\<close> are
  \<open>char[16]\<close>, \<open>bestLine\<close> is \<open>char[BUFSIZ]\<close> with \<open>BUFSIZ = 8192\<close>. Negating the
  least \<open>int\<close> has no meaning in C; the model wraps, as the machine does.
  \<open>best_line_to_san\<close> only copies the position into locals of its own.
\<close>

definition sign_for_display :: "UCI_MODE \<Rightarrow> int \<Rightarrow> 32 word \<Rightarrow> 32 word" where
  "sign_for_display mode side scoreInt =
     (case mode of
        ENGINE_ANALYSIS \<Rightarrow> if side \<noteq> 0 then - scoreInt else scoreInt
      | ENGINE_BLACK \<Rightarrow> - scoreInt
      | ENGINE_WHITE \<Rightarrow> scoreInt)"

definition parse_info_score :: "string \<Rightarrow> session \<Rightarrow> fault + session" where
  "parse_info_score info_depth s =
     (case info_score_cp_matcher info_depth of
        Some g \<Rightarrow>
          (case extract_match 16 g of
             Inl f \<Rightarrow> Inl f
           | Inr scoreValue \<Rightarrow>
               (let scoreInt = sign_for_display (uci_mode s) (to_play s) (to_int (strtol scoreValue));
                    scoreString = snprintf 16 (fmt_2f_hundredths (sint scoreInt))
                in Inr (emit (SetAnalysisScore scoreString) s)))
      | None \<Rightarrow>
          (case info_score_mate_matcher info_depth of
             Some g \<Rightarrow>
               (case extract_match 16 g of
                  Inl f \<Rightarrow> Inl f
                | Inr scoreValue \<Rightarrow>
                    (let scoreInt = sign_for_display (uci_mode s) (to_play s) (to_int (strtol scoreValue));
                         scoreString = snprintf 16 (CHR ''#'' # fmt_d (sint scoreInt))
                     in Inr (emit (SetAnalysisScore scoreString) s)))
           | None \<Rightarrow> Inr s))"

definition parse_info_best_line :: "string \<Rightarrow> session \<Rightarrow> fault + session" where
  "parse_info_best_line info_depth s =
     (case info_best_line_matcher info_depth of
        Some g \<Rightarrow>
          (case extract_match 8192 g of
             Inl f \<Rightarrow> Inl f
           | Inr bestLine \<Rightarrow> Inr (emit (SetAnalysisBestLine bestLine) s))
      | None \<Rightarrow> Inr s)"

definition parse_info_nps :: "string \<Rightarrow> session \<Rightarrow> fault + session" where
  "parse_info_nps info_depth s =
     (case info_nps_matcher info_depth of
        Some g \<Rightarrow>
          (case extract_match 16 g of
             Inl f \<Rightarrow> Inl f
           | Inr nps \<Rightarrow>
               (let npsInt = to_int (strtol nps);
                    npsString = snprintf 32 (fmt_d (c_div (sint npsInt) 1000) @ '' kNps'')
                in Inr (emit (SetAnalysisNodesPerSecond npsString) s)))
      | None \<Rightarrow> Inr s)"

definition parse_info :: "string \<Rightarrow> session \<Rightarrow> fault + session" where
  "parse_info info_depth s =
     (case parse_info_score info_depth s of
        Inl f \<Rightarrow> Inl f
      | Inr s1 \<Rightarrow>
          (case parse_info_best_line info_depth s1 of
             Inl f \<Rightarrow> Inl f
           | Inr s2 \<Rightarrow> parse_info_nps info_depth s2))"

subsection \<open>The reader\<close>

text \<open>
  Modelled from the spec: the scanner (\<open>uci_scanner__scan_bytes\<close>, \<open>uci_scanner_lex\<close>,
  \<open>uci_scanner_text\<close>) is generated code of this repository that is not among the
  sources at hand. The spec says it turns a chunk of engine output into a finite sequence
  of events, each a kind with the text of the line. The kinds are the case labels of
  \<open>parse_uci_buffer\<close>; \<open>OTHER\<close> stands for every value that takes the \<open>default\<close> branch.
\<close>

datatype token =
    UCI_OK | UCI_READY | UCI_ID_NAME | UCI_ID_AUTHOR | UCI_OPTION | UCI_BEST_MOVE_NONE
  | UCI_BEST_MOVE_WITH_PONDER | UCI_BEST_MOVE | UCI_INFO | LINE_FEED | EMPTY_LINE | OTHER

text \<open>
  One turn of the \<open>switch\<close> in \<open>parse_uci_buffer\<close>. \<open>strcpy(engine_name, uci_scanner_text + 8)\<close>
  reads from offset 8 of the text and fills \<open>char engine_name[256]\<close>.
\<close>

definition dispatch ::
  "(char \<Rightarrow> int) \<Rightarrow> token \<Rightarrow> string \<Rightarrow> string \<Rightarrow> string \<Rightarrow> session \<Rightarrow> fault + session" where
  "dispatch char_to_type i uci_scanner_text bestMove0 ponderMove0 s =
     (case i of
        UCI_OK \<Rightarrow> Inr (s\<lparr>uci_ok := True\<rparr>)
      | UCI_READY \<Rightarrow> Inr (s\<lparr>uci_ready := True\<rparr>)
      | UCI_ID_NAME \<Rightarrow>
          (let s1 = emit (Stdout (''Got UCI Name: '' @ uci_scanner_text @ ''\<newline>'')) s
           in if length uci_scanner_text < 8 \<or> length (drop 8 uci_scanner_text) \<ge> 256
              then Inl BufferOverrun
              else Inr (s1\<lparr>engine_name := drop 8 uci_scanner_text\<rparr>))
      | UCI_ID_AUTHOR \<Rightarrow>
          Inr (emit (Stdout (''Got UCI Author: '' @ uci_scanner_text @ ''\<newline>'')) s)
      | UCI_OPTION \<Rightarrow> parse_option uci_scanner_text s
      | UCI_BEST_MOVE_NONE \<Rightarrow> Inr s
      | UCI_BEST_MOVE_WITH_PONDER \<Rightarrow>
          parse_move_with_ponder char_to_type bestMove0 ponderMove0 uci_scanner_text s
      | UCI_BEST_MOVE \<Rightarrow> parse_move char_to_type bestMove0 uci_scanner_text s
      | UCI_INFO \<Rightarrow> parse_info uci_scanner_text s
      | LINE_FEED \<Rightarrow> Inr s
      | EMPTY_LINE \<Rightarrow> Inr s
      | OTHER \<Rightarrow> Inr s)"

subsection \<open>Sequences of operations\<close>

text \<open>
  What can happen to a session once the engine runs: the caller starts a game or submits
  a move, the reader dispatches one scanned line, or a read from the pipe fails
  (\<open>parse_uci_buffer\<close> then reports it on stderr, sleeps and returns). An engine line
  carries, besides its kind and text, the prior contents of the two local arrays of the
  best-move handlers. Starting the process (\<open>spawn_uci_engine\<close>, \<open>init_regex\<close>) comes
  before all of this and is not an operation here.
\<close>

datatype operation =
    StartNewGame int UCI_MODE rendezvous rendezvous int int
  | UserMove string rendezvous int int
  | EngineLine token string string string
  | ReadFailed

fun step :: "(char \<Rightarrow> int) \<Rightarrow> operation \<Rightarrow> session \<Rightarrow> fault + session" where
  "step char_to_type (StartNewGame time mode r1 r2 wtime btime) s =
     Inr (start_new_uci_game time mode r1 r2 wtime btime s)"
| "step char_to_type (UserMove move r wtime btime) s = user_move_to_uci move r wtime btime s"
| "step char_to_type (EngineLine i txt bestMove0 ponderMove0) s =
     dispatch char_to_type i txt bestMove0 ponderMove0 s"
| "step char_to_type ReadFailed s =
     Inr (emit (Stderr ''ERROR: failed to read data from UCI Engine pipe\<newline>'') s)"

fun run :: "(char \<Rightarrow> int) \<Rightarrow> operation list \<Rightarrow> session \<Rightarrow> fault + session" where
  "run char_to_type [] s = Inr s"
| "run char_to_type (op # ops) s =
     (case step char_to_type op s of Inl f \<Rightarrow> Inl f | Inr s1 \<Rightarrow> run char_to_type ops s1)"

subsection \<open>The move history as the spec sees it\<close>

text \<open>
  The spec's MoveHistory is a sequence of move tokens; the code keeps one buffer, the
  position marker followed by the tokens, each behind one blank. \<open>pieces\<close> cuts a text
  at its blanks; the history is what follows the three words of the marker.
\<close>

fun pieces :: "string \<Rightarrow> string list" where
  "pieces [] = [[]]"
| "pieces (c # cs) =
     (if c = CHR '' '' then [] # pieces cs
      else (case pieces cs of [] \<Rightarrow> [[c]] | p # ps \<Rightarrow> (c # p) # ps))"

definition history :: "session \<Rightarrow> string list" where
  "history s = drop 3 (pieces (all_moves s))"

text \<open>A session inside a game: the buffer starts with the marker.\<close>

definition in_game :: "session \<Rightarrow> bool" where
  "in_game s = (take 23 (all_moves s) = ''position startpos moves'')"

text \<open>The globals as the program starts with them, for a given mode.\<close>

definition fresh :: "UCI_MODE \<Rightarrow> session" where
  "fresh mode =
     \<lparr>engine_name = '''', uci_ok = False, uci_ready = False, pondering = False,
      analysing = False, ply_num = 0, to_play = 0, all_moves = '''', uci_mode = mode,
      promo_type = 0, ics_mode = False, effects = []\<rparr>"

text \<open>
  Two runs of the polling loop: one in which the flag is never set and each turn comes a
  second after the last, and one in which the third loop test finds the flag set at once.
\<close>

definition one_second_polls :: "nat \<Rightarrow> bool \<times> int" where
  "one_second_polls k = (False, int k)"

definition answer_at_third_poll :: "nat \<Rightarrow> bool \<times> int" where
  "answer_at_third_poll k = (k = 2, 0)"

text \<open>
  One accepted move, seen from the history: the token stands at the end of the buffer
  behind one blank, the history has grown by exactly this token, the side to move has
  changed, and side and length still agree.
\<close>

definition one_token_appended :: "string \<Rightarrow> session \<Rightarrow> session \<Rightarrow> bool" where
  "one_token_appended mv s s' =
     (all_moves s' = all_moves s @ CHR '' '' # mv \<and>
      history s' = history s @ [mv] \<and>
      to_play s' = 1 - to_play s \<and>
      in_game s' \<and> to_play s' = int (length (history s')) mod 2)"

section \<open>Properties\<close>

subsection \<open>Helper facts\<close>

lemma effects_emit: "effects (emit e s) = effects s @ [e]"
  by (simp add: emit_def)

lemma uci_writes_append: "uci_writes (xs @ ys) = uci_writes xs @ uci_writes ys"
  by (induction xs rule: uci_writes.induct) simp_all

lemma append_move_Inr:
  assumes "append_move mv lk s = Inr s'"
  shows "all_moves s' = all_moves s @ CHR '' '' # mv"
    and "to_play s' = (if to_play s \<noteq> 0 then 0 else 1)"
    and "ply_num s' = ply_num s + 1"
    and "pondering s' = pondering s"
    and "analysing s' = analysing s"
    and "uci_mode s' = uci_mode s"
    and "promo_type s' = promo_type s"
    and "ics_mode s' = ics_mode s"
    and "uci_writes (effects s') = uci_writes (effects s)"
  using assms
  by (auto simp: append_move_def Let_def emit_def uci_writes_append split: if_splits)

lemma append_move_fits:
  assumes "length (all_moves s) + length mv + 1 < 4 * 8192"
  shows "\<exists>s'. append_move mv lk s = Inr s'"
  using assms by (simp add: append_move_def Let_def)

lemma append_move_effects:
  assumes "append_move mv lk s = Inr s'"
  shows "\<exists>cl. effects s' = effects s @ cl \<and> list_all is_clock_call cl \<and> (ics_mode s \<longrightarrow> cl = [])"
  using assms
  by (auto simp: append_move_def Let_def emit_def split: if_splits)

lemma append_move_frame:
  assumes "append_move mv lk s = Inr s'"
  shows "all_moves s' = all_moves s @ CHR '' '' # mv \<and> analysing s' = analysing s \<and>
         uci_mode s' = uci_mode s"
  using append_move_Inr [OF assms] by simp

lemma start_new_uci_game_fields:
  "all_moves (start_new_uci_game time mode r1 r2 wtime btime s) = ''position startpos moves''"
  "to_play (start_new_uci_game time mode r1 r2 wtime btime s) = 0"
  "analysing (start_new_uci_game time mode r1 r2 wtime btime s) =
     (analysing s \<or> mode = ENGINE_ANALYSIS)"
  by (cases mode; cases r1; cases r2;
      simp add: start_new_uci_game_def wait_for_engine_def write_to_uci_def emit_def Let_def)+

lemma start_new_uci_game_stop:
  assumes "pondering s \<or> analysing s"
  shows "\<exists>rest. uci_writes (effects (start_new_uci_game time mode r1 r2 wtime btime s)) =
           uci_writes (effects s) @ ''stop\<newline>'' # rest"
  using assms
  by (cases mode; cases r1; cases r2)
     (auto simp add: start_new_uci_game_def wait_for_engine_def write_to_uci_def emit_def
        Let_def uci_writes_append)

lemma user_move_to_uci_fits:
  assumes "length (all_moves s) + length mv + 3 \<le> 8192"
  shows "\<exists>s'. user_move_to_uci mv r wtime btime s = Inr s'"
proof -
  have "length (all_moves s) + length mv + 1 < 4 * 8192" using assms by simp
  then obtain s1 where s1: "append_move mv False s = Inr s1"
    using append_move_fits by blast
  have "\<not> length (all_moves s1) + 2 > 8192"
    using append_move_Inr(1) [OF s1] assms by simp
  then show ?thesis using s1
    by (simp add: user_move_to_uci_def Let_def)
qed

lemma user_move_to_uci_Inr:
  assumes "user_move_to_uci mv r wtime btime s = Inr s'"
  shows "all_moves s' = all_moves s @ CHR '' '' # mv"
    and "to_play s' = (if to_play s \<noteq> 0 then 0 else 1)"
    and "ply_num s' = ply_num s + 1"
    and "uci_mode s' = uci_mode s"
    and "analysing s' = (analysing s \<or> uci_mode s = ENGINE_ANALYSIS)"
    and "pondering s' = pondering s"
proof -
  obtain s1 where s1: "append_move mv False s = Inr s1"
    using assms by (auto simp: user_move_to_uci_def split: sum.splits)
  note a = append_move_Inr [OF s1]
  have s': "s' = (let s2 = (if pondering s1 \<or> uci_mode s1 = ENGINE_ANALYSIS
                       then write_to_uci ''stop\<newline>'' s1 else s1);
                 s3 = wait_for_engine r s2;
                 s4 = write_to_uci (all_moves s1 @ ''\<newline>'') s3
             in if uci_mode s4 = ENGINE_ANALYSIS
                then write_to_uci ''go infinite\<newline>'' (s4\<lparr>analysing := True\<rparr>)
                else write_to_uci
                            (''go wtime '' @ fmt_d wtime @ '' btime '' @ fmt_d btime @ ''\<newline>'')
                            s4)"
    using assms s1 by (auto simp: user_move_to_uci_def Let_def split: if_splits)
  show "all_moves s' = all_moves s @ CHR '' '' # mv"
    unfolding s' using a(1)
    by (cases r) (simp_all add: Let_def write_to_uci_def wait_for_engine_def emit_def)
  show "to_play s' = (if to_play s \<noteq> 0 then 0 else 1)"
    unfolding s' using a(2)
    by (cases r) (simp_all add: Let_def write_to_uci_def wait_for_engine_def emit_def)
  show "ply_num s' = ply_num s + 1"
    unfolding s' using a(3)
    by (cases r) (simp_all add: Let_def write_to_uci_def wait_for_engine_def emit_def)
  show "uci_mode s' = uci_mode s"
    unfolding s' using a(6)
    by (cases r) (simp_all add: Let_def write_to_uci_def wait_for_engine_def emit_def)
  show "analysing s' = (analysing s \<or> uci_mode s = ENGINE_ANALYSIS)"
    unfolding s' using a(5,6)
    by (cases r) (auto simp add: Let_def write_to_uci_def wait_for_engine_def emit_def)
  show "pondering s' = pondering s"
    unfolding s' using a(4)
    by (cases r) (simp_all add: Let_def write_to_uci_def wait_for_engine_def emit_def)
qed

text \<open>What the two best-move handlers do with a move they accept.\<close>

lemma parse_move_accepted:
  assumes "\<not> pondering s" and "uci_mode s \<noteq> ENGINE_ANALYSIS"
    and "length (all_moves s) + length mv + 1 < 4 * 8192"
    and "(case best_move_matcher txt of Some g \<Rightarrow> extract_match 6 g | None \<Rightarrow> Inr b0) = Inr mv"
  shows "\<exists>s' cl. parse_move ctt b0 txt s = Inr s' \<and>
           all_moves s' = all_moves s @ CHR '' '' # mv \<and>
           to_play s' = (if to_play s \<noteq> 0 then 0 else 1) \<and>
           ply_num s' = ply_num s + 1 \<and>
           promo_type s' = (if length mv > 4 then ctt (minus_32 (mv ! 4)) else promo_type s) \<and>
           pondering s' = pondering s \<and> analysing s' = analysing s \<and> uci_mode s' = uci_mode s \<and>
           effects s' = effects s @ cl @ [SetLastMove mv, GotUciMove] \<and>
           list_all is_clock_call cl \<and> (ics_mode s \<longrightarrow> cl = [])"
proof -
  let ?s1 = "if length mv > 4 then s\<lparr>promo_type := ctt (minus_32 (mv ! 4))\<rparr> else s"
  have "length (all_moves ?s1) + length mv + 1 < 4 * 8192"
    using assms(3) by simp
  then obtain s2 where s2: "append_move mv True ?s1 = Inr s2"
    using append_move_fits by blast
  obtain cl where cl: "effects s2 = effects ?s1 @ cl" "list_all is_clock_call cl"
      "ics_mode ?s1 \<longrightarrow> cl = []"
    using append_move_effects [OF s2] by blast
  have "parse_move ctt b0 txt s = Inr (emit GotUciMove (emit (SetLastMove mv) s2))"
    using assms(1,2,4) s2 by (simp add: parse_move_def Let_def)
  moreover have "effects (emit GotUciMove (emit (SetLastMove mv) s2)) =
      effects s @ cl @ [SetLastMove mv, GotUciMove]"
    using cl(1) by (simp add: emit_def)
  moreover have "ics_mode s \<longrightarrow> cl = []"
    using cl(3) by (simp split: if_splits)
  ultimately show ?thesis
    using append_move_Inr [OF s2] cl(2) by (auto simp: emit_def)
qed

lemma parse_move_with_ponder_accepted:
  assumes "\<not> pondering s" and "uci_mode s \<noteq> ENGINE_ANALYSIS"
    and "length (all_moves s) + length mv + length pm + 4 \<le> 8192"
    and "(case best_move_ponder_matcher txt of
            Some (g1, g2) \<Rightarrow>
              (case extract_match 6 g1 of
                 Inl f \<Rightarrow> Inl f
               | Inr b \<Rightarrow> (case extract_match 6 g2 of Inl f \<Rightarrow> Inl f | Inr p \<Rightarrow> Inr (b, p)))
          | None \<Rightarrow> Inr (b0, p0)) = Inr (mv, pm)"
  shows "\<exists>s' cl. parse_move_with_ponder ctt b0 p0 txt s = Inr s' \<and>
           all_moves s' = all_moves s @ CHR '' '' # mv \<and>
           to_play s' = (if to_play s \<noteq> 0 then 0 else 1) \<and>
           ply_num s' = ply_num s + 1 \<and>
           promo_type s' = (if length mv > 4 then ctt (minus_32 (mv ! 4)) else promo_type s) \<and>
           pondering s' \<and> analysing s' = analysing s \<and> uci_mode s' = uci_mode s \<and>
           effects s' = effects s @ cl @
             [SetLastMove mv, GotUciMove,
              WriteToUci (all_moves s @ CHR '' '' # mv @ '' '' @ pm @ ''\<newline>''),
              WriteToUci ''go ponder\<newline>''] \<and>
           list_all is_clock_call cl \<and> (ics_mode s \<longrightarrow> cl = [])"
proof -
  let ?s1 = "if length mv > 4 then s\<lparr>promo_type := ctt (minus_32 (mv ! 4))\<rparr> else s"
  have "length (all_moves ?s1) + length mv + 1 < 4 * 8192"
    using assms(3) by simp
  then obtain s2 where s2: "append_move mv True ?s1 = Inr s2"
    using append_move_fits by blast
  obtain cl where cl: "effects s2 = effects ?s1 @ cl" "list_all is_clock_call cl"
      "ics_mode ?s1 \<longrightarrow> cl = []"
    using append_move_effects [OF s2] by blast
  note a = append_move_Inr [OF s2]
  let ?s3 = "emit GotUciMove (emit (SetLastMove mv) s2)"
  let ?moves = "all_moves ?s3 @ '' '' @ pm @ ''\<newline>''"
  let ?s' = "(write_to_uci ''go ponder\<newline>'' (write_to_uci ?moves ?s3))\<lparr>pondering := True\<rparr>"
  have room: "\<not> length (all_moves ?s3) + 1 + length pm + 2 > 8192"
    using assms(3) a(1) by (simp add: emit_def)
  have "parse_move_with_ponder ctt b0 p0 txt s = Inr ?s'"
    using assms(1,2) s2 room unfolding parse_move_with_ponder_def assms(4) Let_def
    by simp
  moreover have "effects ?s' = effects s @ cl @
             [SetLastMove mv, GotUciMove,
              WriteToUci (all_moves s @ CHR '' '' # mv @ '' '' @ pm @ ''\<newline>''),
              WriteToUci ''go ponder\<newline>'']"
    using cl(1) a(1) by (simp add: emit_def write_to_uci_def)
  moreover have "ics_mode s \<longrightarrow> cl = []"
    using cl(3) by (simp split: if_splits)
  ultimately show ?thesis
    using a cl(2) by (auto simp: emit_def write_to_uci_def)
qed

text \<open>What the handlers leave alone.\<close>

lemma parse_option_frame:
  assumes "parse_option optionText s = Inr s'"
  shows "s' = s"
  using assms
  by (auto simp: parse_option_def split: option.splits sum.splits)

lemma parse_info_frame:
  assumes "parse_info info_depth s = Inr s'"
  shows "s' = s\<lparr>effects := effects s'\<rparr>"
  using assms
  by (auto simp: parse_info_def parse_info_score_def parse_info_best_line_def
        parse_info_nps_def emit_def Let_def split: option.splits sum.splits)

lemma parse_move_frame:
  assumes "parse_move ctt b0 txt s = Inr s'"
  shows "(\<exists>ext. all_moves s' = all_moves s @ ext) \<and> analysing s' = analysing s \<and>
         uci_mode s' = uci_mode s"
  using assms
  by (auto simp: parse_move_def Let_def emit_def
        split: sum.splits option.splits if_splits dest!: append_move_frame)

lemma parse_move_with_ponder_frame:
  assumes "parse_move_with_ponder ctt b0 p0 txt s = Inr s'"
  shows "(\<exists>ext. all_moves s' = all_moves s @ ext) \<and> analysing s' = analysing s \<and>
         uci_mode s' = uci_mode s"
  using assms
  by (auto simp: parse_move_with_ponder_def Let_def emit_def write_to_uci_def
        split: sum.splits option.splits if_splits prod.splits dest!: append_move_frame)

lemma dispatch_frame:
  assumes "dispatch ctt i txt b0 p0 s = Inr s'"
  shows "(\<exists>ext. all_moves s' = all_moves s @ ext) \<and> analysing s' = analysing s \<and>
         uci_mode s' = uci_mode s"
proof (cases i)
  case UCI_OPTION
  then show ?thesis using assms parse_option_frame [of "txt" s s'] by (simp add: dispatch_def)
next
  case UCI_BEST_MOVE_WITH_PONDER
  then show ?thesis using assms parse_move_with_ponder_frame [of ctt b0 p0 "txt" s s']
    by (simp add: dispatch_def)
next
  case UCI_BEST_MOVE
  then show ?thesis using assms parse_move_frame [of ctt b0 "txt" s s'] by (simp add: dispatch_def)
next
  case UCI_INFO
  then have "s' = s\<lparr>effects := effects s'\<rparr>"
    using assms parse_info_frame [of "txt" s s'] by (simp add: dispatch_def)
  then have "all_moves s' = all_moves s \<and> analysing s' = analysing s \<and> uci_mode s' = uci_mode s"
    by (metis session.select_convs session.surjective session.update_convs(12))
  then show ?thesis by simp
qed (use assms in \<open>auto simp: dispatch_def emit_def Let_def split: if_splits\<close>)

lemma step_frame:
  assumes "step ctt op s = Inr s'"
  shows "(analysing s \<longrightarrow> analysing s') \<and>
         (case op of
            StartNewGame time mode r1 r2 wtime btime \<Rightarrow> all_moves s' = ''position startpos moves''
          | _ \<Rightarrow> (\<exists>ext. all_moves s' = all_moves s @ ext))"
proof (cases op)
  case (StartNewGame time mode r1 r2 wtime btime)
  then show ?thesis using assms start_new_uci_game_fields [of time mode r1 r2 wtime btime s]
    by auto
next
  case (UserMove mv r wtime btime)
  then show ?thesis using assms user_move_to_uci_Inr [of mv r wtime btime s s']
    by auto
next
  case (EngineLine i t b0 p0)
  then show ?thesis using assms dispatch_frame [of ctt i t b0 p0 s s']
    by auto
next
  case ReadFailed
  then show ?thesis using assms by (auto simp: emit_def)
qed

lemma run_analysing:
  assumes "analysing s" and "run ctt ops s = Inr s'"
  shows "analysing s'"
  using assms
proof (induction ops arbitrary: s)
  case Nil
  then show ?case by simp
next
  case (Cons op ops)
  then obtain s1 where s1: "step ctt op s = Inr s1" and r: "run ctt ops s1 = Inr s'"
    by (auto split: sum.splits)
  have "analysing s1" using step_frame [OF s1] Cons.prems(1) by simp
  from Cons.IH [OF this r] show ?case .
qed

text \<open>The pieces of a text, and the history behind the marker.\<close>

lemma pieces_not_Nil: "pieces xs \<noteq> []"
  by (induction xs) (auto split: list.splits)

lemma length_pieces: "length (pieces xs) = Suc (length (filter (\<lambda>c. c = CHR '' '') xs))"
  using pieces_not_Nil
  by (induction xs) (auto split: list.splits)

lemma pieces_append_blank: "pieces (xs @ CHR '' '' # ys) = pieces xs @ pieces ys"
proof (induction xs)
  case Nil
  show ?case by simp
next
  case (Cons c xs)
  obtain p ps where p: "pieces xs = p # ps"
    using pieces_not_Nil [of xs] by (cases "pieces xs") auto
  show ?case using Cons p by simp
qed

lemma pieces_no_blank:
  assumes "CHR '' '' \<notin> set ys"
  shows "pieces ys = [ys]"
  using assms by (induction ys) auto

lemma in_game_length:
  assumes "in_game s"
  shows "23 \<le> length (all_moves s)"
proof (rule ccontr)
  assume "\<not> 23 \<le> length (all_moves s)"
  then have "length (take 23 (all_moves s)) < 23" by simp
  with assms show False by (simp add: in_game_def)
qed

lemma in_game_pieces:
  assumes "in_game s"
  shows "3 \<le> length (pieces (all_moves s))"
proof -
  have "all_moves s = ''position startpos moves'' @ drop 23 (all_moves s)"
    using assms append_take_drop_id [of 23 "all_moves s"] unfolding in_game_def by metis
  then have "length (pieces (all_moves s)) =
      Suc (length (filter (\<lambda>c. c = CHR '' '') (''position startpos moves'' @ drop 23 (all_moves s))))"
    using length_pieces [of "all_moves s"] by simp
  then show ?thesis
    by simp
qed

lemma history_append:
  assumes "in_game s" and "CHR '' '' \<notin> set mv"
    and "all_moves s' = all_moves s @ CHR '' '' # mv"
  shows "history s' = history s @ [mv]" and "in_game s'"
proof -
  show "history s' = history s @ [mv]"
    using in_game_pieces [OF assms(1)] assms(2,3)
    by (simp add: history_def pieces_append_blank pieces_no_blank)
  show "in_game s'"
    using in_game_length [OF assms(1)] assms(1,3) by (simp add: in_game_def)
qed

lemma one_token_appendedI:
  assumes "in_game s" and "to_play s = int (length (history s)) mod 2"
    and "CHR '' '' \<notin> set mv"
    and "all_moves s' = all_moves s @ CHR '' '' # mv"
    and "to_play s' = (if to_play s \<noteq> 0 then 0 else 1)"
  shows "one_token_appended mv s s'"
proof -
  note h = history_append [OF assms(1,3,4)]
  have "to_play s = 0 \<or> to_play s = 1" using assms(2) by presburger
  then have t: "to_play s' = 1 - to_play s" using assms(5) by auto
  have "to_play s' = int (length (history s')) mod 2"
    using t assms(2) h(1) by (simp add: mod_simps) presburger
  with h t assms(4) show ?thesis by (simp add: one_token_appended_def)
qed

text \<open>Lengths and signs of the printed numbers.\<close>

lemma length_show_digits:
  assumes "n < 10 ^ k" and "0 < k"
  shows "length (show_digits n) \<le> k"
  using assms
proof (induction k arbitrary: n)
  case 0
  then show ?case by simp
next
  case (Suc k)
  show ?case
  proof (cases "n < 10")
    case True
    then show ?thesis by (simp add: show_digits.simps [of n])
  next
    case False
    then have k: "0 < k" using Suc.prems(1) by (cases k) auto
    have "n div 10 < 10 ^ k" using Suc.prems(1) by simp
    from Suc.IH [OF this k] False show ?thesis
      by (simp add: show_digits.simps [of n])
  qed
qed

lemma length_fmt_2f_hundredths:
  fixes w :: "32 word"
  shows "length (fmt_2f_hundredths (sint w)) \<le> 15"
proof -
  have lo: "- (2 ^ 31) \<le> sint w" using sint_ge [of w] by simp
  have hi: "sint w < 2 ^ 31" using sint_lt [of w] by simp
  define a where "a = \<bar>sint w\<bar> div 100"
  have "a < 10 ^ 8" using lo hi by (simp add: a_def)
  from length_show_digits [OF this] have "length (show_digits a) \<le> 8" by simp
  then show ?thesis
    unfolding fmt_2f_hundredths_def a_def [symmetric] by simp
qed

lemma length_fmt_d:
  fixes w :: "32 word"
  shows "length (fmt_d (sint w)) \<le> 11"
proof -
  have lo: "- (2 ^ 31) \<le> sint w" using sint_ge [of w] by simp
  have hi: "sint w < 2 ^ 31" using sint_lt [of w] by simp
  have "length (show_digits (- sint w)) \<le> 10" if "sint w < 0"
    using lo by (intro length_show_digits) simp_all
  moreover have "length (show_digits (sint w)) \<le> 10"
    using hi by (intro length_show_digits) simp_all
  ultimately show ?thesis
    by (simp add: fmt_d_def)
qed

lemma sign_for_display_eq:
  "sign_for_display mode side v =
     (if mode = ENGINE_BLACK \<or> (mode = ENGINE_ANALYSIS \<and> side \<noteq> 0) then - v else v)"
  by (cases mode) (simp_all add: sign_for_display_def)

lemma parse_info_effects_prefix:
  assumes "parse_info_score info_depth s = Inr s1" and "parse_info info_depth s = Inr s'"
  shows "\<exists>rest. effects s' = effects s1 @ rest"
  using assms
  by (auto simp: parse_info_def parse_info_best_line_def parse_info_nps_def emit_def Let_def
        split: option.splits sum.splits)

lemma sint_uminus_32:
  fixes V :: "32 word"
  assumes "sint V \<noteq> - (2 ^ 31)"
  shows "sint (- V) = - sint V"
proof -
  have lo: "- (2 ^ 31) \<le> sint V" using sint_ge [of V] by simp
  have hi: "sint V < 2 ^ 31" using sint_lt [of V] by simp
  have "- V = word_of_int (- sint V)" by simp
  then have "sint (- V) = signed_take_bit 31 (- sint V)"
    by (simp only: sint_sbintrunc') simp
  also have "\<dots> = - sint V"
    using lo hi assms by (intro signed_take_bit_int_eq_self) simp_all
  finally show ?thesis .
qed

lemma uminus_32_moves:
  fixes V :: "32 word"
  assumes "- V \<noteq> V"
  shows "sint V \<noteq> 0" and "sint V \<noteq> - (2 ^ 31)"
proof -
  have V: "V = word_of_int (sint V)" by simp
  show "sint V \<noteq> 0"
  proof
    assume "sint V = 0"
    with V have "V = 0" by simp
    with assms show False by simp
  qed
  show "sint V \<noteq> - (2 ^ 31)"
  proof
    assume "sint V = - (2 ^ 31)"
    with V have "V = word_of_int (- (2 ^ 31))" by simp
    then have "- V = V" by simp
    with assms show False by simp
  qed
qed

lemma of_char_digit_char:
  assumes "0 \<le> d" and "d < 10"
  shows "(of_char (digit_char d) :: int) = 48 + d"
  using assms by (simp add: digit_char_def of_char_of)

lemma show_digits_first:
  assumes "0 \<le> n"
  shows "show_digits n \<noteq> [] \<and> hd (show_digits n) \<noteq> CHR ''-''"
  using assms
proof (induction n rule: show_digits.induct)
  case (1 n)
  show ?case
  proof (cases "n < 10")
    case True
    with "1.prems" have "(of_char (digit_char n) :: int) = 48 + n"
      by (intro of_char_digit_char)
    then have "digit_char n \<noteq> CHR ''-''" using "1.prems" by auto
    with True show ?thesis by (simp add: show_digits.simps [of n])
  next
    case False
    with "1.IH" "1.prems" have "show_digits (n div 10) \<noteq> [] \<and> hd (show_digits (n div 10)) \<noteq> CHR ''-''"
      by simp
    with False show ?thesis by (simp add: show_digits.simps [of n])
  qed
qed

lemma fmt_2f_hundredths_sign:
  assumes "v \<noteq> 0"
  shows "fmt_2f_hundredths (- v) \<noteq> fmt_2f_hundredths v"
proof -
  have pos: "hd (fmt_2f_hundredths x) \<noteq> CHR ''-''" if "0 \<le> x" for x
    using that show_digits_first [of "\<bar>x\<bar> div 100"]
    by (simp add: fmt_2f_hundredths_def)
  have neg: "hd (fmt_2f_hundredths x) = CHR ''-''" if "x < 0" for x
    using that by (simp add: fmt_2f_hundredths_def)
  show ?thesis
  proof (cases "v < 0")
    case True
    then show ?thesis using pos [of "- v"] neg [of v] by auto
  next
    case False
    with assms show ?thesis using pos [of v] neg [of "- v"] by auto
  qed
qed

text \<open>
  \<open>strtol\<close> reads back what \<open>%ld\<close> prints: the value of a group that is the decimal
  form of a number is that number.
\<close>

lemma digit_char_is_digit:
  assumes "0 \<le> m" and "m < 10"
  shows "is_digit (digit_char m)" and "(of_char (digit_char m) :: int) - 48 = m"
proof -
  from assms have "m = 0 \<or> m = 1 \<or> m = 2 \<or> m = 3 \<or> m = 4 \<or> m = 5 \<or> m = 6 \<or> m = 7 \<or>
      m = 8 \<or> m = 9"
    by arith
  moreover have "is_digit (digit_char 0)" "is_digit (digit_char 1)" "is_digit (digit_char 2)"
    "is_digit (digit_char 3)" "is_digit (digit_char 4)" "is_digit (digit_char 5)"
    "is_digit (digit_char 6)" "is_digit (digit_char 7)" "is_digit (digit_char 8)"
    "is_digit (digit_char 9)"
    by code_simp+
  ultimately show "is_digit (digit_char m)" by auto
  show "(of_char (digit_char m) :: int) - 48 = m"
    using assms by (simp add: of_char_digit_char)
qed

lemma show_digits_all_digits:
  assumes "0 \<le> n"
  shows "list_all is_digit (show_digits n) \<and> digits_value (show_digits n) = n"
  using assms
proof (induction n rule: show_digits.induct)
  case (1 n)
  show ?case
  proof (cases "n < 10")
    case True
    then show ?thesis
      using "1.prems" digit_char_is_digit [of n]
      by (simp add: show_digits.simps [of n] digits_value_def)
  next
    case False
    then have ih: "list_all is_digit (show_digits (n div 10))"
        "digits_value (show_digits (n div 10)) = n div 10"
      using "1.IH" "1.prems" by simp_all
    have d: "is_digit (digit_char (n mod 10))" "(of_char (digit_char (n mod 10)) :: int) - 48 = n mod 10"
      using digit_char_is_digit [of "n mod 10"] by simp_all
    have "digits_value (show_digits n) = 10 * digits_value (show_digits (n div 10)) + n mod 10"
      using False d(2) by (simp add: show_digits.simps [of n] digits_value_def)
    then show ?thesis
      using False ih d(1) by (simp add: show_digits.simps [of n])
  qed
qed

lemma takeWhile_all:
  assumes "\<forall>x\<in>set xs. P x"
  shows "takeWhile P xs = xs"
  using assms by (induction xs) auto

lemma strtol_fmt_d:
  assumes "- (2 ^ 63) \<le> v" and "v < 2 ^ 63"
  shows "strtol (fmt_d v) = v"
proof (cases "v < 0")
  case True
  then have "0 \<le> - v" by simp
  from show_digits_all_digits [OF this]
  have "\<forall>x\<in>set (show_digits (- v)). is_digit x" "digits_value (show_digits (- v)) = - v"
    by (simp_all add: list_all_iff)
  then show ?thesis
    using True assms by (simp add: strtol_def fmt_d_def is_space_def takeWhile_all)
next
  case False
  then have nn: "0 \<le> v" by simp
  from show_digits_all_digits [OF nn]
  have t: "\<forall>x\<in>set (show_digits v). is_digit x" "digits_value (show_digits v) = v"
    by (simp_all add: list_all_iff)
  obtain c cs where c: "show_digits v = c # cs"
    using show_digits_first [OF nn] by (cases "show_digits v") auto
  then have "is_digit c" using t(1) by simp
  then have "\<not> is_space c" "c \<noteq> CHR ''-''" "c \<noteq> CHR ''+''"
    by (auto simp: is_digit_def is_space_def)
  moreover have "takeWhile is_digit (c # cs) = c # cs"
    using t(1) c takeWhile_all [of "c # cs" is_digit] by simp
  ultimately show ?thesis
    using False assms t(2) c by (simp add: strtol_def fmt_d_def takeWhile_all)
qed

text \<open>
  The polling loop ends in the first turn that reads the flag set or more than three whole
  seconds. Each turn sleeps for at least a millisecond first, so on a clock that shows it
  the loop has ended before its 4000th turn is over.
\<close>

lemma wait_loop_exit:
  assumes "fst (obs k) \<or> 3 < snd (obs k)"
    and "\<forall>j. i \<le> j \<and> j < k \<longrightarrow> \<not> fst (obs j) \<and> snd (obs j) \<le> 3"
    and "i \<le> k"
  shows "wait_loop obs i = Some (if fst (obs k) then ReadyOk else TimedOut, k)"
  using assms(2,3)
proof (induction "k - i" arbitrary: i)
  case 0
  then have "i = k" by simp
  then show ?case using assms(1) by (subst wait_loop.simps) auto
next
  case (Suc n)
  then have lt: "i < k" by simp
  then have here: "\<not> fst (obs i)" "snd (obs i) \<le> 3" using Suc.prems(1) by auto
  have "wait_loop obs (Suc i) = Some (if fst (obs k) then ReadyOk else TimedOut, k)"
    using Suc.hyps(2) Suc.prems lt by (intro Suc.hyps(1)) auto
  then show ?case using here by (subst wait_loop.simps) simp
qed

lemma wait_loop_within_4000:
  assumes "\<forall>k. (int k + 1) div 1000 \<le> snd (obs k)"
  shows "\<exists>r k. k < 4000 \<and> wait_loop obs 0 = Some (r, k)"
proof -
  let ?P = "\<lambda>k. fst (obs k) \<or> 3 < snd (obs k)"
  have "(int 3999 + 1) div 1000 \<le> snd (obs 3999)" using assms by blast
  then have P: "?P 3999" by simp
  define k where "k = (LEAST k. ?P k)"
  have Pk: "?P k" unfolding k_def using P by (rule LeastI)
  have le: "k \<le> 3999" unfolding k_def using P by (rule Least_le)
  have before: "\<forall>j. 0 \<le> j \<and> j < k \<longrightarrow> \<not> fst (obs j) \<and> snd (obs j) \<le> 3"
  proof (intro allI impI)
    fix j assume "0 \<le> j \<and> j < k"
    then have "\<not> ?P j" unfolding k_def using not_less_Least by blast
    then show "\<not> fst (obs j) \<and> snd (obs j) \<le> 3" by auto
  qed
  from wait_loop_exit [OF Pk before] le show ?thesis by auto
qed

text \<open>A best move of more than five characters does not fit \<open>char bestMove[6]\<close>.\<close>

lemma long_best_move_overruns:
  assumes "\<not> pondering s" and "uci_mode s \<noteq> ENGINE_ANALYSIS"
    and "best_move_matcher moveText = Some mv" and "5 < length mv"
  shows "parse_move char_to_type bestMove0 moveText s = Inl BufferOverrun"
  using assms by (simp add: parse_move_def extract_match_def)

subsection \<open>The readiness rendezvous\<close>

text \<open>
  C6. \<open>wait_for_engine\<close> clears the ready flag and writes \<open>isready\<close>; it returns in
  the first turn of its loop that reads the flag set, or else in the first turn that
  computes more than three whole seconds since the start, which is a turn at least four
  seconds after the start, and then it has written the warning to stderr. It returns a
  session, never a fault, and the callers go on in the same way after either end: the
  commands of \<open>start_new_uci_game\<close> do not depend on how its two waits ended. On a clock
  that shows the millisecond each turn sleeps, that turn is one of the first 4000.
\<close>

theorem wait_for_engine_returns:
  assumes "fst (obs k) \<or> 3 < snd (obs k)"
    and "\<forall>j<k. \<not> fst (obs j) \<and> snd (obs j) \<le> 3"
  shows "wait_loop obs 0 = Some (if fst (obs k) then ReadyOk else TimedOut, k) \<and>
         wait_for_engine_polling obs s =
           Some (if fst (obs k)
                 then s\<lparr>uci_ready := True, effects := effects s @ [WriteToUci ''isready\<newline>'']\<rparr>
                 else s\<lparr>uci_ready := False,
                        effects := effects s @ [WriteToUci ''isready\<newline>'',
                                                Stderr ''Ooops, UCI Engine crashed?!\<newline>'']\<rparr>) \<and>
         uci_writes (effects (start_new_uci_game time mode r1 r2 wtime btime s)) =
           uci_writes (effects (start_new_uci_game time mode ReadyOk ReadyOk wtime btime s)) \<and>
         ((\<forall>i. (int i + 1) div 1000 \<le> snd (obs i)) \<longrightarrow> k < 4000)"
proof -
  have loop: "wait_loop obs 0 = Some (if fst (obs k) then ReadyOk else TimedOut, k)"
    using assms by (intro wait_loop_exit) auto
  have callers: "uci_writes (effects (start_new_uci_game time mode r1 r2 wtime btime s)) =
           uci_writes (effects (start_new_uci_game time mode ReadyOk ReadyOk wtime btime s))"
    by (cases mode; cases r1; cases r2)
       (simp_all add: start_new_uci_game_def wait_for_engine_def write_to_uci_def emit_def
          Let_def uci_writes_append)
  have bound: "k < 4000" if "\<forall>i. (int i + 1) div 1000 \<le> snd (obs i)"
    using wait_loop_within_4000 [OF that] loop by auto
  show ?thesis
    using loop callers bound
    by (simp add: wait_for_engine_polling_def wait_for_engine_def write_to_uci_def emit_def Let_def)
qed

theorem wait_for_engine_returns_witness:
  "wait_loop answer_at_third_poll 0 = Some (ReadyOk, 2) \<and>
   wait_for_engine_polling answer_at_third_poll (fresh ENGINE_BLACK) =
     Some ((fresh ENGINE_BLACK)\<lparr>uci_ready := True, effects := [WriteToUci ''isready\<newline>'']\<rparr>) \<and>
   wait_loop one_second_polls 0 = Some (TimedOut, 4) \<and>
   wait_for_engine_polling one_second_polls (fresh ENGINE_BLACK) =
     Some ((fresh ENGINE_BLACK)\<lparr>uci_ready := False,
        effects := [WriteToUci ''isready\<newline>'', Stderr ''Ooops, UCI Engine crashed?!\<newline>'']\<rparr>) \<and>
   (\<forall>i. (int i + 1) div 1000 \<le> snd (one_second_polls i))"
proof -
  have a: "\<forall>j<2. \<not> fst (answer_at_third_poll j) \<and> snd (answer_at_third_poll j) \<le> 3"
    by (simp add: answer_at_third_poll_def)
  have b: "\<forall>j<4. \<not> fst (one_second_polls j) \<and> snd (one_second_polls j) \<le> 3"
    by (simp add: one_second_polls_def)
  have c: "\<forall>i. (int i + 1) div 1000 \<le> snd (one_second_polls i)"
  proof
    fix i
    have "(int i + 1) div 1000 < int i + 1"
      by (rule int_div_less_self) simp_all
    then show "(int i + 1) div 1000 \<le> snd (one_second_polls i)"
      by (simp add: one_second_polls_def)
  qed
  show ?thesis
    using wait_for_engine_returns [of answer_at_third_poll 2 "fresh ENGINE_BLACK", OF _ a]
      wait_for_engine_returns [of one_second_polls 4 "fresh ENGINE_BLACK", OF _ b] c
    by (simp add: answer_at_third_poll_def one_second_polls_def fresh_def)
qed

text \<open>
  With the flag never set and a turn every second, the turn that reads three whole
  seconds does not end the wait; the next one does.
\<close>

theorem wait_for_engine_three_seconds_counterexample:
  "snd (one_second_polls 3) = 3 \<and> wait_loop one_second_polls 0 \<noteq> Some (TimedOut, 3) \<and>
   wait_loop one_second_polls 0 = Some (TimedOut, 4)"
  using wait_loop_exit [of one_second_polls 4 0]
  by (simp add: one_second_polls_def)

subsection \<open>Starting a game\<close>

text \<open>
  C5. \<open>start_new_uci_game\<close> writes \<open>stop\<close> first exactly when the session is pondering
  or analysing, then \<open>isready\<close>, \<open>ucinewgame\<close> and \<open>isready\<close> again, and then what the
  mode asks for: with the engine as White the start position and a timed search carrying
  both remaining times, with the engine as Black nothing, for analysis the start position
  and an unbounded search. Afterwards the buffer holds the bare marker, the ply counter is
  1, the first mover is to play, \<open>pondering\<close> is false, and \<open>analysing\<close> has been set
  if the mode is analysis.
\<close>

theorem start_new_uci_game_commands:
  "uci_writes (effects (start_new_uci_game time mode r1 r2 wtime btime s)) =
     uci_writes (effects s) @
     (if pondering s \<or> analysing s then [''stop\<newline>''] else []) @
     [''isready\<newline>'', ''ucinewgame\<newline>'', ''isready\<newline>''] @
     (case mode of
        ENGINE_WHITE \<Rightarrow>
          [''position startpos\<newline>go wtime '' @ fmt_d wtime @ '' btime '' @ fmt_d btime @ ''\<newline>'']
      | ENGINE_BLACK \<Rightarrow> []
      | ENGINE_ANALYSIS \<Rightarrow> [''position startpos\<newline>go infinite\<newline>''])
   \<and> all_moves (start_new_uci_game time mode r1 r2 wtime btime s) = ''position startpos moves''
   \<and> ply_num (start_new_uci_game time mode r1 r2 wtime btime s) = 1
   \<and> to_play (start_new_uci_game time mode r1 r2 wtime btime s) = 0
   \<and> \<not> pondering (start_new_uci_game time mode r1 r2 wtime btime s)
   \<and> uci_mode (start_new_uci_game time mode r1 r2 wtime btime s) = mode
   \<and> analysing (start_new_uci_game time mode r1 r2 wtime btime s) =
       (analysing s \<or> mode = ENGINE_ANALYSIS)"
  by (cases mode; cases r1; cases r2)
     (simp_all add: start_new_uci_game_def wait_for_engine_def write_to_uci_def emit_def
        Let_def uci_writes_append)

text \<open>
  The same at a session that is pondering, restarted with the engine as White; the second
  rendezvous times out.
\<close>

theorem start_new_uci_game_commands_witness:
  "uci_writes (effects (start_new_uci_game 300 ENGINE_WHITE ReadyOk TimedOut 300000 299000
      ((fresh ENGINE_BLACK)\<lparr>pondering := True, ply_num := 8, to_play := 1,
         all_moves := ''position startpos moves e2e4''\<rparr>))) =
     [''stop\<newline>'', ''isready\<newline>'', ''ucinewgame\<newline>'', ''isready\<newline>'',
      ''position startpos\<newline>go wtime 300000 btime 299000\<newline>'']
   \<and> all_moves (start_new_uci_game 300 ENGINE_WHITE ReadyOk TimedOut 300000 299000
      ((fresh ENGINE_BLACK)\<lparr>pondering := True, ply_num := 8, to_play := 1,
         all_moves := ''position startpos moves e2e4''\<rparr>)) = ''position startpos moves''"
proof -
  have digits: "fmt_d 300000 = ''300000''" "fmt_d 299000 = ''299000''"
    by code_simp+
  show ?thesis
    using start_new_uci_game_commands [of 300 ENGINE_WHITE ReadyOk TimedOut 300000 299000
      "(fresh ENGINE_BLACK)\<lparr>pondering := True, ply_num := 8, to_play := 1,
         all_moves := ''position startpos moves e2e4''\<rparr>"]
    by (simp add: fresh_def digits)
qed

subsection \<open>Moves while the board is in ICS mode\<close>

text \<open>
  C10. With \<open>ics_mode\<close> set, \<open>append_move\<close> makes no call at all (so none to the clock),
  whatever the ply counter holds; it still appends the token behind one blank, flips the
  side to move and adds one to the ply counter. It returns whenever the token fits into
  the buffer.
\<close>

theorem ics_mode_no_clock_call:
  assumes "ics_mode s" and "length (all_moves s) + length mv + 1 < 4 * 8192"
  shows "\<exists>s'. append_move mv lk s = Inr s' \<and>
           effects s' = effects s \<and>
           all_moves s' = all_moves s @ CHR '' '' # mv \<and>
           to_play s' = (if to_play s \<noteq> 0 then 0 else 1) \<and>
           ply_num s' = ply_num s + 1"
  using assms by (simp add: append_move_def Let_def)

theorem ics_mode_no_clock_call_witness:
  "\<exists>s'. append_move ''e2e4'' True
           ((fresh ENGINE_BLACK)\<lparr>ics_mode := True, ply_num := 1,
              all_moves := ''position startpos moves''\<rparr>) = Inr s' \<and>
        effects s' = [] \<and> all_moves s' = ''position startpos moves e2e4'' \<and>
        to_play s' = 1 \<and> ply_num s' = 2"
  using ics_mode_no_clock_call [of "(fresh ENGINE_BLACK)\<lparr>ics_mode := True, ply_num := 1,
      all_moves := ''position startpos moves''\<rparr>" "''e2e4''" True]
  by (simp add: fresh_def)

text \<open>
  The same holds for every operation as a whole: with \<open>ics_mode\<close> set, no user move,
  no engine line and no new game adds a call to the clock.
\<close>

lemma filter_clock_append_move:
  assumes "ics_mode s" and "append_move mv lk s = Inr s'"
  shows "effects s' = effects s \<and> ics_mode s'"
  using assms by (auto simp: append_move_def Let_def split: if_splits)

lemma ics_mode_step_no_clock_call:
  assumes "ics_mode s" and "step ctt op s = Inr s'"
  shows "filter is_clock_call (effects s') = filter is_clock_call (effects s)"
proof (cases op)
  case (StartNewGame time mode r1 r2 wtime btime)
  then show ?thesis using assms
    by (cases mode; cases r1; cases r2)
       (auto simp: start_new_uci_game_def wait_for_engine_def write_to_uci_def emit_def Let_def)
next
  case (UserMove mv r wtime btime)
  then show ?thesis using assms
    by (cases r)
       (auto simp: user_move_to_uci_def wait_for_engine_def write_to_uci_def emit_def Let_def
          split: sum.splits if_splits dest!: filter_clock_append_move [rotated])
next
  case (EngineLine i t b0 p0)
  show ?thesis
  proof (cases i)
    case UCI_OPTION
    then show ?thesis using assms EngineLine parse_option_frame [of t s s']
      by (simp add: dispatch_def)
  next
    case UCI_BEST_MOVE_WITH_PONDER
    then show ?thesis using assms EngineLine
      by (auto simp: dispatch_def parse_move_with_ponder_def write_to_uci_def emit_def Let_def
          split: sum.splits if_splits option.splits prod.splits
          dest!: filter_clock_append_move [rotated])
  next
    case UCI_BEST_MOVE
    then show ?thesis using assms EngineLine
      by (auto simp: dispatch_def parse_move_def write_to_uci_def emit_def Let_def
          split: sum.splits if_splits option.splits
          dest!: filter_clock_append_move [rotated])
  next
    case UCI_INFO
    then show ?thesis using assms EngineLine
      by (auto simp: dispatch_def parse_info_def parse_info_score_def parse_info_best_line_def
            parse_info_nps_def emit_def Let_def split: option.splits sum.splits)
  qed (use assms EngineLine in \<open>auto simp: dispatch_def emit_def Let_def split: if_splits\<close>)
next
  case ReadFailed
  then show ?thesis using assms by (auto simp: emit_def)
qed

subsection \<open>Best-move lines\<close>

text \<open>
  C2. A best-move line, bare or with a ponder move, that arrives while \<open>pondering\<close> is
  set or while the mode is analysis is dropped: each handler returns the session it was
  given with \<open>pondering\<close> cleared and nothing else changed, so the buffer, the ply
  counter and the side to move are the same and no call to the engine, the clock or the
  board has been added. If \<open>pondering\<close> was not set, the session is the same altogether.
\<close>

theorem best_move_discarded:
  assumes "pondering s \<or> uci_mode s = ENGINE_ANALYSIS"
  shows "parse_move char_to_type bestMove0 moveText s = Inr (s\<lparr>pondering := False\<rparr>) \<and>
         parse_move_with_ponder char_to_type bestMove0 ponderMove0 moveText s =
           Inr (s\<lparr>pondering := False\<rparr>) \<and>
         (\<not> pondering s \<longrightarrow> s\<lparr>pondering := False\<rparr> = s)"
  using assms by (auto simp: parse_move_def parse_move_with_ponder_def)

theorem best_move_discarded_witness:
  "parse_move of_char ''?'' ''bestmove e7e5''
     ((fresh ENGINE_BLACK)\<lparr>pondering := True, all_moves := ''position startpos moves e2e4''\<rparr>) =
   Inr ((fresh ENGINE_BLACK)\<lparr>pondering := False, all_moves := ''position startpos moves e2e4''\<rparr>) \<and>
   parse_move_with_ponder of_char ''?'' ''?'' ''bestmove e7e5 ponder g1f3'' (fresh ENGINE_ANALYSIS) =
   Inr (fresh ENGINE_ANALYSIS)"
  using best_move_discarded [of "(fresh ENGINE_BLACK)\<lparr>pondering := True,
      all_moves := ''position startpos moves e2e4''\<rparr>" of_char "''?''" "''bestmove e7e5''"]
    best_move_discarded [of "fresh ENGINE_ANALYSIS" of_char "''?''" "''bestmove e7e5 ponder g1f3''" "''?''"]
  by (simp add: fresh_def)

text \<open>
  If \<open>pondering\<close> was set, the session after the line is not the session before it:
  the flag has been cleared.
\<close>

theorem best_move_discarded_counterexample:
  "parse_move of_char ''?'' ''bestmove e7e5''
     ((fresh ENGINE_BLACK)\<lparr>pondering := True, all_moves := ''position startpos moves e2e4''\<rparr>) \<noteq>
   Inr ((fresh ENGINE_BLACK)\<lparr>pondering := True, all_moves := ''position startpos moves e2e4''\<rparr>)"
  by (simp add: parse_move_def fresh_def)




text \<open>
  C1. A best-move line that the pattern \<open>bestmove (.*)\<close> does not match is not skipped.
  \<open>parse_move\<close> notes the mismatch and goes on: whatever the array \<open>bestMove\<close> held is
  appended to the buffer, the side to move flips, the ply counter grows, a promotion
  piece is derived if that text is longer than four characters, and the board is told of
  a move. This holds for every prior content of the array.
\<close>

theorem best_move_mismatch_not_skipped:
  assumes "\<not> pondering s" and "uci_mode s \<noteq> ENGINE_ANALYSIS"
    and "best_move_matcher moveText = None"
    and "length (all_moves s) + length bestMove0 + 1 < 4 * 8192"
  shows "\<exists>s' cl. parse_move char_to_type bestMove0 moveText s = Inr s' \<and>
           all_moves s' = all_moves s @ CHR '' '' # bestMove0 \<and>
           to_play s' = (if to_play s \<noteq> 0 then 0 else 1) \<and>
           to_play s' \<noteq> to_play s \<and>
           ply_num s' = ply_num s + 1 \<and>
           promo_type s' = (if length bestMove0 > 4
                            then char_to_type (minus_32 (bestMove0 ! 4)) else promo_type s) \<and>
           effects s' = effects s @ cl @ [SetLastMove bestMove0, GotUciMove]"
proof -
  have m: "(case best_move_matcher moveText of Some g \<Rightarrow> extract_match 6 g | None \<Rightarrow> Inr bestMove0)
           = Inr bestMove0"
    using assms(3) by simp
  from parse_move_accepted [OF assms(1,2,4) m, of char_to_type]
  show ?thesis by (auto split: if_splits)
qed

theorem best_move_mismatch_not_skipped_witness:
  "best_move_matcher ''bestmove'' = None \<and>
   (\<exists>s' cl. parse_move of_char ''xy'' ''bestmove''
        ((fresh ENGINE_BLACK)\<lparr>all_moves := ''position startpos moves e2e4'', ply_num := 2,
           to_play := 1\<rparr>) = Inr s' \<and>
      all_moves s' = ''position startpos moves e2e4 xy'' \<and> to_play s' = 0 \<and> ply_num s' = 3 \<and>
      effects s' = cl @ [SetLastMove ''xy'', GotUciMove])"
proof -
  have h: "best_move_matcher ''bestmove'' = None"
    by code_simp
  show ?thesis
    using best_move_mismatch_not_skipped [of "(fresh ENGINE_BLACK)\<lparr>all_moves := ''position startpos moves e2e4'', ply_num := 2,
           to_play := 1\<rparr>" "''bestmove''" "''xy''" of_char, OF _ _ h]
    by (auto simp add: fresh_def h)
qed

text \<open>
  The other two handlers do skip what they cannot match: \<open>parse_info\<close> and \<open>parse_option\<close>
  return the session unchanged, and never change anything but the list of calls.
\<close>

lemma parse_info_mismatch_skipped:
  assumes "info_score_cp_matcher info_depth = None" and "info_score_mate_matcher info_depth = None"
    and "info_best_line_matcher info_depth = None" and "info_nps_matcher info_depth = None"
  shows "parse_info info_depth s = Inr s"
  using assms
  by (simp add: parse_info_def parse_info_score_def parse_info_best_line_def parse_info_nps_def)

lemma parse_option_mismatch_skipped:
  assumes "option_matcher optionText = None"
  shows "parse_option optionText s = Inr s"
  using assms by (simp add: parse_option_def)

subsection \<open>Scores\<close>

text \<open>
  C3. For an info line whose centipawn group reads as the \<open>int\<close> \<open>V\<close>, the score
  shown is \<open>- V / 100\<close> with two decimals when the mode is \<open>ENGINE_BLACK\<close>, or
  \<open>ENGINE_ANALYSIS\<close> with \<open>to_play\<close> not 0, and \<open>V / 100\<close> with two decimals
  otherwise (so always for \<open>ENGINE_WHITE\<close>); \<open>- V\<close> is the negation of the machine.
  It is the first call that \<open>parse_info\<close> makes. Whenever \<open>- V\<close> differs from \<open>V\<close>
  (\<open>V\<close> is neither 0 nor the least \<open>int\<close>) the two strings differ, so there the mode
  and the side decide which one is shown.
\<close>

theorem centipawn_score_display:
  assumes "info_score_cp_matcher info_depth = Some g" and "length g < 16"
    and "to_int (strtol g) = V"
  shows "parse_info_score info_depth s =
           Inr (emit (SetAnalysisScore (fmt_2f_hundredths (sint
                  (if uci_mode s = ENGINE_BLACK \<or> (uci_mode s = ENGINE_ANALYSIS \<and> to_play s \<noteq> 0)
                   then - V else V)))) s) \<and>
         (\<forall>s'. parse_info info_depth s = Inr s' \<longrightarrow>
            (\<exists>rest. effects s' = effects s @
               SetAnalysisScore (fmt_2f_hundredths (sint
                  (if uci_mode s = ENGINE_BLACK \<or> (uci_mode s = ENGINE_ANALYSIS \<and> to_play s \<noteq> 0)
                   then - V else V))) # rest)) \<and>
         (- V \<noteq> V \<longrightarrow> fmt_2f_hundredths (sint (- V)) \<noteq> fmt_2f_hundredths (sint V))"
proof -
  let ?v = "if uci_mode s = ENGINE_BLACK \<or> (uci_mode s = ENGINE_ANALYSIS \<and> to_play s \<noteq> 0)
            then - V else V"
  have score: "parse_info_score info_depth s =
      Inr (emit (SetAnalysisScore (fmt_2f_hundredths (sint ?v))) s)"
    using assms length_fmt_2f_hundredths [of ?v]
    by (simp add: parse_info_score_def extract_match_def Let_def sign_for_display_eq
          snprintf_def)
  have differ: "fmt_2f_hundredths (sint (- V)) \<noteq> fmt_2f_hundredths (sint V)" if "- V \<noteq> V"
    using uminus_32_moves [OF that] sint_uminus_32 [of V] fmt_2f_hundredths_sign [of "sint V"]
    by simp
  show ?thesis
    using score parse_info_effects_prefix [OF score] differ
    by (fastforce simp: emit_def)
qed

theorem centipawn_score_display_witness:
  "info_score_cp_matcher ''info depth 12 score cp -35 nps 240000 pv e7e5 g1f3'' = Some ''-35'' \<and>
   to_int (strtol ''-35'') = - 35 \<and>
   parse_info ''info depth 12 score cp -35 nps 240000 pv e7e5 g1f3'' (fresh ENGINE_WHITE) =
     Inr ((fresh ENGINE_WHITE)\<lparr>effects :=
       [SetAnalysisScore ''-0.35'', SetAnalysisBestLine ''e7e5 g1f3'',
        SetAnalysisNodesPerSecond ''240 kNps'']\<rparr>) \<and>
   parse_info_score ''info depth 12 score cp -35 nps 240000 pv e7e5 g1f3'' (fresh ENGINE_WHITE) =
     Inr (emit (SetAnalysisScore ''-0.35'') (fresh ENGINE_WHITE)) \<and>
   parse_info_score ''info depth 12 score cp -35 nps 240000 pv e7e5 g1f3'' (fresh ENGINE_BLACK) =
     Inr (emit (SetAnalysisScore ''0.35'') (fresh ENGINE_BLACK)) \<and>
   fmt_2f_hundredths (sint (- (- 35 :: 32 word))) \<noteq> fmt_2f_hundredths (sint (- 35 :: 32 word))"
proof -
  have h1: "info_score_cp_matcher ''info depth 12 score cp -35 nps 240000 pv e7e5 g1f3'' = Some ''-35''"
    by code_simp
  have h2: "to_int (strtol ''-35'') = - 35"
    by code_simp
  have h3: "parse_info ''info depth 12 score cp -35 nps 240000 pv e7e5 g1f3'' (fresh ENGINE_WHITE) =
     Inr ((fresh ENGINE_WHITE)\<lparr>effects :=
       [SetAnalysisScore ''-0.35'', SetAnalysisBestLine ''e7e5 g1f3'',
        SetAnalysisNodesPerSecond ''240 kNps'']\<rparr>)"
    by code_simp
  have f: "fmt_2f_hundredths (- 35) = ''-0.35''" "fmt_2f_hundredths 35 = ''0.35''"
    by code_simp+
  show ?thesis
    using centipawn_score_display [OF h1 _ h2, of "fresh ENGINE_WHITE"]
      centipawn_score_display [OF h1 _ h2, of "fresh ENGINE_BLACK"]
    by (simp add: h1 h2 h3 [unfolded fresh_def, simplified] f fresh_def)
qed

text \<open>
  At the score 0 the string shown with the engine as White is the two-decimal form of
  \<open>- 0 / 100\<close> as well, although the mode is neither \<open>ENGINE_BLACK\<close> nor \<open>ENGINE_ANALYSIS\<close>.
\<close>

theorem centipawn_score_zero_counterexample:
  "\<not> (parse_info_score ''info depth 1 score cp 0'' (fresh ENGINE_WHITE) =
         Inr (emit (SetAnalysisScore (fmt_2f_hundredths (sint (- to_int (strtol ''0'')))))
               (fresh ENGINE_WHITE))
       \<longleftrightarrow> uci_mode (fresh ENGINE_WHITE) = ENGINE_BLACK \<or>
           (uci_mode (fresh ENGINE_WHITE) = ENGINE_ANALYSIS \<and> to_play (fresh ENGINE_WHITE) \<noteq> 0))"
  by code_simp

text \<open>
  C8. For an info line without a centipawn group whose mate group reads as the \<open>int\<close>
  \<open>N\<close>, the score shown is \<open>#\<close> followed by the signed decimal of \<open>N\<close>, after \<open>N\<close> has
  been negated when the mode is \<open>ENGINE_BLACK\<close>, or \<open>ENGINE_ANALYSIS\<close> with \<open>to_play\<close> not
  0, and left as it is otherwise (so always for \<open>ENGINE_WHITE\<close>). It is the first call
  that \<open>parse_info\<close> makes.
\<close>

theorem mate_score_display:
  assumes "info_score_cp_matcher info_depth = None"
    and "info_score_mate_matcher info_depth = Some g" and "length g < 16"
    and "to_int (strtol g) = N"
  shows "parse_info_score info_depth s =
           Inr (emit (SetAnalysisScore (CHR ''#'' # fmt_d (sint
                  (if uci_mode s = ENGINE_BLACK \<or> (uci_mode s = ENGINE_ANALYSIS \<and> to_play s \<noteq> 0)
                   then - N else N)))) s) \<and>
         (\<forall>s'. parse_info info_depth s = Inr s' \<longrightarrow>
            (\<exists>rest. effects s' = effects s @
               SetAnalysisScore (CHR ''#'' # fmt_d (sint
                  (if uci_mode s = ENGINE_BLACK \<or> (uci_mode s = ENGINE_ANALYSIS \<and> to_play s \<noteq> 0)
                   then - N else N))) # rest))"
proof -
  let ?v = "if uci_mode s = ENGINE_BLACK \<or> (uci_mode s = ENGINE_ANALYSIS \<and> to_play s \<noteq> 0)
            then - N else N"
  have score: "parse_info_score info_depth s =
      Inr (emit (SetAnalysisScore (CHR ''#'' # fmt_d (sint ?v))) s)"
    using assms length_fmt_d [of ?v]
    by (simp add: parse_info_score_def extract_match_def Let_def sign_for_display_eq
          snprintf_def)
  show ?thesis
    using score parse_info_effects_prefix [OF score]
    by (fastforce simp: emit_def)
qed

theorem mate_score_display_witness:
  "info_score_cp_matcher ''info depth 20 score mate -3 nps 1000 pv h5f7'' = None \<and>
   info_score_mate_matcher ''info depth 20 score mate -3 nps 1000 pv h5f7'' = Some ''-3'' \<and>
   to_int (strtol ''-3'') = - 3 \<and>
   parse_info ''info depth 20 score mate -3 nps 1000 pv h5f7'' (fresh ENGINE_BLACK) =
     Inr ((fresh ENGINE_BLACK)\<lparr>effects :=
       [SetAnalysisScore ''#3'', SetAnalysisBestLine ''h5f7'',
        SetAnalysisNodesPerSecond ''1 kNps'']\<rparr>) \<and>
   parse_info_score ''info depth 20 score mate -3 nps 1000 pv h5f7'' (fresh ENGINE_BLACK) =
     Inr (emit (SetAnalysisScore ''#3'') (fresh ENGINE_BLACK)) \<and>
   parse_info_score ''info depth 20 score mate -3 nps 1000 pv h5f7'' (fresh ENGINE_WHITE) =
     Inr (emit (SetAnalysisScore ''#-3'') (fresh ENGINE_WHITE))"
proof -
  have h0: "info_score_cp_matcher ''info depth 20 score mate -3 nps 1000 pv h5f7'' = None"
    by code_simp
  have h1: "info_score_mate_matcher ''info depth 20 score mate -3 nps 1000 pv h5f7'' = Some ''-3''"
    by code_simp
  have h2: "to_int (strtol ''-3'') = - 3"
    by code_simp
  have h3: "parse_info ''info depth 20 score mate -3 nps 1000 pv h5f7'' (fresh ENGINE_BLACK) =
     Inr ((fresh ENGINE_BLACK)\<lparr>effects :=
       [SetAnalysisScore ''#3'', SetAnalysisBestLine ''h5f7'',
        SetAnalysisNodesPerSecond ''1 kNps'']\<rparr>)"
    by code_simp
  have f: "fmt_d (- 3) = ''-3''" "fmt_d 3 = ''3''"
    by code_simp+
  show ?thesis
    using mate_score_display [OF h0 h1 _ h2, of "fresh ENGINE_BLACK"]
      mate_score_display [OF h0 h1 _ h2, of "fresh ENGINE_WHITE"]
    by (simp add: h0 h1 h2 h3 [unfolded fresh_def, simplified] f fresh_def)
qed

subsection \<open>The history\<close>

text \<open>
  C4. In a game, where the side to move agrees with the length of the history, every
  accepted move token (a text without a blank) is appended as exactly one token and flips
  the side to move, and side and length agree again; this holds for a user move, for a
  bare best move and for a best move with a ponder move, each of which returns when its
  buffers have room. A new game starts with the empty history and the first mover to
  play, in every mode. No other operation takes anything away from the buffer: whatever
  is not a new game leaves it as it was or adds to its end.
\<close>

theorem history_append_only:
  assumes "in_game s" and "to_play s = int (length (history s)) mod 2"
    and "CHR '' '' \<notin> set mv"
  shows "(length (all_moves s) + length mv + 3 \<le> 8192 \<longrightarrow>
            (\<exists>s'. user_move_to_uci mv r wtime btime s = Inr s' \<and> one_token_appended mv s s')) \<and>
         (\<not> pondering s \<and> uci_mode s \<noteq> ENGINE_ANALYSIS \<and> best_move_matcher t1 = Some mv \<and>
          length mv < 6 \<and> length (all_moves s) + length mv + 1 < 4 * 8192 \<longrightarrow>
            (\<exists>s'. parse_move char_to_type bestMove0 t1 s = Inr s' \<and> one_token_appended mv s s')) \<and>
         (\<not> pondering s \<and> uci_mode s \<noteq> ENGINE_ANALYSIS \<and>
          best_move_ponder_matcher t2 = Some (mv, pm) \<and> length mv < 6 \<and> length pm < 6 \<and>
          length (all_moves s) + length mv + length pm + 4 \<le> 8192 \<longrightarrow>
            (\<exists>s'. parse_move_with_ponder char_to_type bestMove0 ponderMove0 t2 s = Inr s' \<and>
                  one_token_appended mv s s')) \<and>
         (\<forall>op s'. step char_to_type op s = Inr s' \<longrightarrow>
            (case op of
               StartNewGame time mode r1 r2 wt bt \<Rightarrow>
                 history s' = [] \<and> to_play s' = 0 \<and> in_game s'
             | _ \<Rightarrow> (\<exists>ext. all_moves s' = all_moves s @ ext)))"
proof (intro conjI impI allI)
  assume "length (all_moves s) + length mv + 3 \<le> 8192"
  then obtain s' where s': "user_move_to_uci mv r wtime btime s = Inr s'"
    using user_move_to_uci_fits by blast
  from user_move_to_uci_Inr(1,2) [OF s'] have "one_token_appended mv s s'"
    by (intro one_token_appendedI assms)
  with s' show "\<exists>s'. user_move_to_uci mv r wtime btime s = Inr s' \<and> one_token_appended mv s s'"
    by blast
next
  assume a: "\<not> pondering s \<and> uci_mode s \<noteq> ENGINE_ANALYSIS \<and> best_move_matcher t1 = Some mv \<and>
          length mv < 6 \<and> length (all_moves s) + length mv + 1 < 4 * 8192"
  then have m: "(case best_move_matcher t1 of Some g \<Rightarrow> extract_match 6 g | None \<Rightarrow> Inr bestMove0)
            = Inr mv"
    by (simp add: extract_match_def)
  from a parse_move_accepted [OF _ _ _ m, of s char_to_type]
  obtain s' where s': "parse_move char_to_type bestMove0 t1 s = Inr s'"
    and "all_moves s' = all_moves s @ CHR '' '' # mv"
    and "to_play s' = (if to_play s \<noteq> 0 then 0 else 1)"
    by auto
  then have "one_token_appended mv s s'"
    by (intro one_token_appendedI assms)
  with s' show "\<exists>s'. parse_move char_to_type bestMove0 t1 s = Inr s' \<and> one_token_appended mv s s'"
    by blast
next
  assume a: "\<not> pondering s \<and> uci_mode s \<noteq> ENGINE_ANALYSIS \<and>
          best_move_ponder_matcher t2 = Some (mv, pm) \<and> length mv < 6 \<and> length pm < 6 \<and>
          length (all_moves s) + length mv + length pm + 4 \<le> 8192"
  then have m: "(case best_move_ponder_matcher t2 of
            Some (g1, g2) \<Rightarrow>
              (case extract_match 6 g1 of
                 Inl f \<Rightarrow> Inl f
               | Inr b \<Rightarrow> (case extract_match 6 g2 of Inl f \<Rightarrow> Inl f | Inr p \<Rightarrow> Inr (b, p)))
          | None \<Rightarrow> Inr (bestMove0, ponderMove0)) = Inr (mv, pm)"
    by (simp add: extract_match_def)
  from a parse_move_with_ponder_accepted [OF _ _ _ m, of s char_to_type]
  obtain s' where s': "parse_move_with_ponder char_to_type bestMove0 ponderMove0 t2 s = Inr s'"
    and "all_moves s' = all_moves s @ CHR '' '' # mv"
    and "to_play s' = (if to_play s \<noteq> 0 then 0 else 1)"
    by auto
  then have "one_token_appended mv s s'"
    by (intro one_token_appendedI assms)
  with s' show "\<exists>s'. parse_move_with_ponder char_to_type bestMove0 ponderMove0 t2 s = Inr s' \<and>
                  one_token_appended mv s s'"
    by blast
next
  fix op s'
  assume st: "step char_to_type op s = Inr s'"
  show "case op of
          StartNewGame time mode r1 r2 wt bt \<Rightarrow> history s' = [] \<and> to_play s' = 0 \<and> in_game s'
        | _ \<Rightarrow> (\<exists>ext. all_moves s' = all_moves s @ ext)"
  proof (cases op)
    case (StartNewGame time mode r1 r2 wt bt)
    then have "s' = start_new_uci_game time mode r1 r2 wt bt s" using st by simp
    then show ?thesis
      using StartNewGame start_new_uci_game_fields(1,2) [of time mode r1 r2 wt bt s]
      by (simp add: history_def in_game_def)
  qed (use step_frame [OF st] in auto)
qed

theorem history_append_only_witness:
  "in_game (start_new_uci_game 300 ENGINE_BLACK ReadyOk ReadyOk 300000 300000 (fresh ENGINE_WHITE)) \<and>
   (\<exists>s'. user_move_to_uci ''e7e5'' ReadyOk 300000 300000
            (start_new_uci_game 300 ENGINE_BLACK ReadyOk ReadyOk 300000 300000 (fresh ENGINE_WHITE)) = Inr s' \<and>
          one_token_appended ''e7e5''
            (start_new_uci_game 300 ENGINE_BLACK ReadyOk ReadyOk 300000 300000 (fresh ENGINE_WHITE)) s') \<and>
   (\<exists>s'. parse_move of_char ''?'' ''bestmove e7e5''
            (start_new_uci_game 300 ENGINE_BLACK ReadyOk ReadyOk 300000 300000 (fresh ENGINE_WHITE)) = Inr s' \<and>
          one_token_appended ''e7e5''
            (start_new_uci_game 300 ENGINE_BLACK ReadyOk ReadyOk 300000 300000 (fresh ENGINE_WHITE)) s') \<and>
   (\<exists>s'. parse_move_with_ponder of_char ''?'' ''?'' ''bestmove e7e5 ponder g1f3''
            (start_new_uci_game 300 ENGINE_BLACK ReadyOk ReadyOk 300000 300000 (fresh ENGINE_WHITE)) = Inr s' \<and>
          one_token_appended ''e7e5''
            (start_new_uci_game 300 ENGINE_BLACK ReadyOk ReadyOk 300000 300000 (fresh ENGINE_WHITE)) s')"
proof -
  let ?s = "start_new_uci_game 300 ENGINE_BLACK ReadyOk ReadyOk 300000 300000 (fresh ENGINE_WHITE)"
  have h1: "in_game ?s" by code_simp
  have h2: "to_play ?s = int (length (history ?s)) mod 2" by code_simp
  have h3: "CHR '' '' \<notin> set ''e7e5''" by simp
  have m1: "best_move_matcher ''bestmove e7e5'' = Some ''e7e5''" by code_simp
  have m2: "best_move_ponder_matcher ''bestmove e7e5 ponder g1f3'' = Some (''e7e5'', ''g1f3'')"
    by code_simp
  have st: "\<not> pondering ?s" "uci_mode ?s = ENGINE_BLACK" "length (all_moves ?s) = 23"
    by code_simp+
  show ?thesis
    using history_append_only [OF h1 h2 h3, where r = ReadyOk and wtime = 300000 and btime = 300000
        and ?t1.0 = "''bestmove e7e5''" and char_to_type = of_char and ?bestMove0.0 = "''?''"
        and ?t2.0 = "''bestmove e7e5 ponder g1f3''" and pm = "''g1f3''" and ?ponderMove0.0 = "''?''"]
      h1 m1 m2 st
    by simp
qed

text \<open>
  A whole game opening: the engine plays Black, the user plays e2e4, the engine answers
  e7e5. The history holds both tokens, the first mover is to play again, and the board
  has been told of one move, e7e5.
\<close>

lemma scenario_engine_black:
  "case run of_char
          [StartNewGame 300 ENGINE_BLACK ReadyOk ReadyOk 300000 300000,
           UserMove ''e2e4'' ReadyOk 299000 300000,
           EngineLine UCI_BEST_MOVE ''bestmove e7e5'' ''?'' ''?'']
          (fresh ENGINE_WHITE) of
     Inl f \<Rightarrow> False
   | Inr s' \<Rightarrow>
       history s' = [''e2e4'', ''e7e5''] \<and> to_play s' = 0 \<and>
       filter (\<lambda>e. e = GotUciMove) (effects s') = [GotUciMove] \<and>
       SetLastMove ''e7e5'' \<in> set (effects s')"
  by code_simp

subsection \<open>The analysing flag\<close>

text \<open>
  C9. Once \<open>analysing\<close> is set, no sequence of operations clears it, so the next
  \<open>start_new_uci_game\<close> begins by writing \<open>stop\<close>, whatever its mode and whether or not
  a search is running.
\<close>

theorem analysing_never_reset:
  assumes "analysing s" and "run char_to_type ops s = Inr s'"
  shows "analysing s' \<and>
         (\<exists>rest. uci_writes (effects (start_new_uci_game time mode r1 r2 wtime btime s')) =
                  uci_writes (effects s') @ ''stop\<newline>'' # rest)"
proof -
  have "analysing s'" using run_analysing [OF assms] .
  then show ?thesis using start_new_uci_game_stop [of s'] by simp
qed

theorem analysing_never_reset_witness:
  "analysing (start_new_uci_game 0 ENGINE_ANALYSIS ReadyOk ReadyOk 0 0 (fresh ENGINE_WHITE)) \<and>
   (\<exists>s'. run of_char
            [UserMove ''e2e4'' ReadyOk 0 0,
             EngineLine UCI_INFO ''info depth 3 score cp 20 pv e7e5'' ''?'' ''?'',
             EngineLine UCI_BEST_MOVE ''bestmove e7e5'' ''?'' ''?'',
             StartNewGame 300 ENGINE_BLACK ReadyOk ReadyOk 300000 300000]
            (start_new_uci_game 0 ENGINE_ANALYSIS ReadyOk ReadyOk 0 0 (fresh ENGINE_WHITE)) = Inr s' \<and>
          analysing s' \<and> \<not> pondering s' \<and> uci_mode s' = ENGINE_BLACK \<and>
          (\<exists>rest. uci_writes (effects (start_new_uci_game 300 ENGINE_WHITE ReadyOk ReadyOk 300000 300000 s')) =
                   uci_writes (effects s') @ ''stop\<newline>'' # rest))"
proof -
  let ?s = "start_new_uci_game 0 ENGINE_ANALYSIS ReadyOk ReadyOk 0 0 (fresh ENGINE_WHITE)"
  let ?ops = "[UserMove ''e2e4'' ReadyOk 0 0,
             EngineLine UCI_INFO ''info depth 3 score cp 20 pv e7e5'' ''?'' ''?'',
             EngineLine UCI_BEST_MOVE ''bestmove e7e5'' ''?'' ''?'',
             StartNewGame 300 ENGINE_BLACK ReadyOk ReadyOk 300000 300000]"
  have a: "analysing ?s" by code_simp
  have "case run of_char ?ops ?s of Inl f \<Rightarrow> False
        | Inr s' \<Rightarrow> \<not> pondering s' \<and> uci_mode s' = ENGINE_BLACK"
    by code_simp
  then obtain s' where r: "run of_char ?ops ?s = Inr s'"
    and p: "\<not> pondering s'" "uci_mode s' = ENGINE_BLACK"
    by (auto split: sum.splits)
  show ?thesis
    using analysing_never_reset [OF a r, of 300 ENGINE_WHITE ReadyOk ReadyOk 300000 300000] a r p
    by simp
qed

end
